theory Spec2Isabelle
  imports Main "HOL-Library.Sublist"
begin

section \<open>Text primitives\<close>

text \<open>
  Source text is a list of characters, each a code point below 256; text with higher code
  points is outside the model. The character classes are Python's classes for
  \<^verbatim>\<open>str\<close> patterns on these code points. \<^verbatim>\<open>\s\<close> and \<^verbatim>\<open>str.strip\<close>
  take as white space the code points 9 to 13, 28 to 32, 133 and 160. \<^verbatim>\<open>\d\<close> takes
  the ten digits. \<^verbatim>\<open>\w\<close> takes the underscore and the alphanumeric characters: the
  ASCII letters and digits and, from 128 on, the code points 170, 178, 179, 181, 185, 186,
  188 to 190, 192 to 214, 216 to 246 and 248 to 255.
\<close>

definition is_space :: "char \<Rightarrow> bool" where
  "is_space c = (c \<in> set [CHR 0x09, CHR 0x0A, CHR 0x0B, CHR 0x0C, CHR 0x0D,
                            CHR 0x1C, CHR 0x1D, CHR 0x1E, CHR 0x1F, CHR 0x20,
                            CHR 0x85, CHR 0xA0])"

definition is_digit :: "char \<Rightarrow> bool" where
  "is_digit c = (c \<in> set ''0123456789'')"

definition is_word :: "char \<Rightarrow> bool" where
  "is_word c =
     (c \<in> set (''abcdefghijklmnopqrstuvwxyzABCDEFGHIJKLMNOPQRSTUVWXYZ0123456789_'' @
       [CHR 0xAA, CHR 0xB2, CHR 0xB3, CHR 0xB5, CHR 0xB9, CHR 0xBA, CHR 0xBC, CHR 0xBD,
        CHR 0xBE, CHR 0xC0, CHR 0xC1, CHR 0xC2, CHR 0xC3, CHR 0xC4, CHR 0xC5, CHR 0xC6,
        CHR 0xC7, CHR 0xC8, CHR 0xC9, CHR 0xCA, CHR 0xCB, CHR 0xCC, CHR 0xCD, CHR 0xCE,
        CHR 0xCF, CHR 0xD0, CHR 0xD1, CHR 0xD2, CHR 0xD3, CHR 0xD4, CHR 0xD5, CHR 0xD6,
        CHR 0xD8, CHR 0xD9, CHR 0xDA, CHR 0xDB, CHR 0xDC, CHR 0xDD, CHR 0xDE, CHR 0xDF,
        CHR 0xE0, CHR 0xE1, CHR 0xE2, CHR 0xE3, CHR 0xE4, CHR 0xE5, CHR 0xE6, CHR 0xE7,
        CHR 0xE8, CHR 0xE9, CHR 0xEA, CHR 0xEB, CHR 0xEC, CHR 0xED, CHR 0xEE, CHR 0xEF,
        CHR 0xF0, CHR 0xF1, CHR 0xF2, CHR 0xF3, CHR 0xF4, CHR 0xF5, CHR 0xF6, CHR 0xF8,
        CHR 0xF9, CHR 0xFA, CHR 0xFB, CHR 0xFC, CHR 0xFD, CHR 0xFE, CHR 0xFF]))"

text \<open>\<^verbatim>\<open>sub in s\<close>\<close>

fun contains :: "string \<Rightarrow> string \<Rightarrow> bool" where
  "contains sub [] = (sub = [])"
| "contains sub (c # cs) = (prefix sub (c # cs) \<or> contains sub cs)"

text \<open>\<^verbatim>\<open>s.strip()\<close>\<close>

definition strip :: "string \<Rightarrow> string" where
  "strip s = rev (dropWhile is_space (rev (dropWhile is_space s)))"

text \<open>\<^verbatim>\<open>s.split('\n')\<close>: never empty, one more piece than there are newlines.\<close>

fun split_newline :: "string \<Rightarrow> string list" where
  "split_newline [] = [[]]"
| "split_newline (c # cs) =
     (if c = CHR 0x0A then [] # split_newline cs
      else (case split_newline cs of
              [] \<Rightarrow> [[c]]
            | l # ls \<Rightarrow> (c # l) # ls))"

text \<open>
  \<^verbatim>\<open>int(digits)\<close> on a run of decimal digits. Python's integers are unbounded; the
  interpreter's configurable limit on the number of digits converted is not modelled.
\<close>

definition digit_val :: "char \<Rightarrow> nat" where
  "digit_val c = of_char c - 48"

definition int_of_digits :: "string \<Rightarrow> nat" where
  "int_of_digits ds = foldl (\<lambda>n c. 10 * n + digit_val c) 0 ds"

section \<open>Regular expressions with backtracking\<close>

text \<open>
  The patterns of the scripts quantify single characters only (apart from one optional
  group), so the expressions are: a literal, one character of a class, a greedy run of
  characters of a class, a greedy optional part, sequence, ordered alternative and a
  numbered capture group. \<open>rx_run\<close> lists every way the expression matches a prefix of
  the input, in the order the backtracking matcher of \<^verbatim>\<open>re\<close> tries them (longest run
  first, left alternative first); the first entry is the match \<^verbatim>\<open>re\<close> reports.
  A state is the input still unread with the groups captured so far.
\<close>

datatype rx =
    Lit string
  | One "char \<Rightarrow> bool"
  | Many "char \<Rightarrow> bool"
  | Opt rx
  | Seq rx rx
  | Alt rx rx
  | Grp nat rx

type_synonym groups = "(nat \<times> string) list"

fun rx_run :: "rx \<Rightarrow> string \<times> groups \<Rightarrow> (string \<times> groups) list" where
  "rx_run (Lit l) (s, g) = (if prefix l s then [(drop (length l) s, g)] else [])"
| "rx_run (One p) ([], g) = []"
| "rx_run (One p) (c # cs, g) = (if p c then [(cs, g)] else [])"
| "rx_run (Many p) ([], g) = [([], g)]"
| "rx_run (Many p) (c # cs, g) =
     (if p c then rx_run (Many p) (cs, g) @ [(c # cs, g)] else [(c # cs, g)])"
| "rx_run (Opt r) st = rx_run r st @ [st]"
| "rx_run (Seq r1 r2) st = concat (map (rx_run r2) (rx_run r1 st))"
| "rx_run (Alt r1 r2) st = rx_run r1 st @ rx_run r2 st"
| "rx_run (Grp n r) (s, g) =
     map (\<lambda>(s', g'). (s', (n, take (length s - length s') s) # g')) (rx_run r (s, g))"

definition Many1 :: "(char \<Rightarrow> bool) \<Rightarrow> rx" where
  "Many1 p = Seq (One p) (Many p)"

fun rx_seq :: "rx list \<Rightarrow> rx" where
  "rx_seq [] = Lit []"
| "rx_seq [r] = r"
| "rx_seq (r # rs) = Seq r (rx_seq rs)"

text \<open>\<^verbatim>\<open>pattern.match\<close> at the start of \<open>s\<close>: the number of characters matched and the groups.\<close>

definition re_match :: "rx \<Rightarrow> string \<Rightarrow> (nat \<times> groups) option" where
  "re_match r s =
     (case rx_run r (s, []) of
        [] \<Rightarrow> None
      | (rest, g) # _ \<Rightarrow> Some (length s - length rest, g))"

text \<open>\<^verbatim>\<open>pattern.search\<close>: the leftmost match, tried at every position up to the end.\<close>

fun re_search :: "rx \<Rightarrow> string \<Rightarrow> groups option" where
  "re_search r [] = map_option snd (re_match r [])"
| "re_search r (c # cs) =
     (case re_match r (c # cs) of
        Some (n, g) \<Rightarrow> Some g
      | None \<Rightarrow> re_search r cs)"

text \<open>\<^verbatim>\<open>match.group(n)\<close>; \<^verbatim>\<open>None\<close> for a group that took no part in the match.\<close>

definition group :: "groups \<Rightarrow> nat \<Rightarrow> string option" where
  "group g n = map_of g n"

text \<open>
  \<^verbatim>\<open>re.sub\<close> with the replacement computed from the groups, and \<^verbatim>\<open>pattern.finditer\<close>:
  successive matches that do not overlap, from left to right. After an empty match the
  scan moves on by one character; every pattern of the scripts starts with a literal, so
  none of them matches the empty text.
\<close>

fun re_sub :: "rx \<Rightarrow> (groups \<Rightarrow> string) \<Rightarrow> string \<Rightarrow> string" where
  "re_sub r repl [] = (case re_match r [] of Some (n, g) \<Rightarrow> repl g | None \<Rightarrow> [])"
| "re_sub r repl (c # cs) =
     (case re_match r (c # cs) of
        None \<Rightarrow> c # re_sub r repl cs
      | Some (n, g) \<Rightarrow>
          (if n = 0 then repl g @ c # re_sub r repl cs
           else repl g @ re_sub r repl (drop (n - 1) cs)))"

fun finditer :: "rx \<Rightarrow> string \<Rightarrow> groups list" where
  "finditer r [] = (case re_match r [] of Some (n, g) \<Rightarrow> [g] | None \<Rightarrow> [])"
| "finditer r (c # cs) =
     (case re_match r (c # cs) of
        None \<Rightarrow> finditer r cs
      | Some (n, g) \<Rightarrow>
          (if n = 0 then g # finditer r cs
           else g # finditer r (drop (n - 1) cs)))"

section \<open>scripts/parse\_meshcore\_cli.py\<close>

subsection \<open>Patterns of \<open>parse_commands\<close>\<close>

text \<open>\<^verbatim>\<open>memcmp\s*\(\s*(command|config)\s*,\s*"([^"]+)"\s*,\s*(\d+)\s*\)\<close>\<close>

definition cmd_pattern :: rx where
  \<open>cmd_pattern = rx_seq
     [Lit ''memcmp'', Many is_space, Lit ''('', Many is_space,
      Grp 1 (Alt (Lit ''command'') (Lit ''config'')), Many is_space, Lit '','', Many is_space,
      Lit ''"'', Grp 2 (Many1 (\<lambda>c. c \<noteq> CHR ''"'')), Lit ''"'', Many is_space, Lit '','',
      Many is_space, Grp 3 (Many1 is_digit), Many is_space, Lit '')'']\<close>

text \<open>\<^verbatim>\<open>sprintf\s*\(\s*reply\s*,\s*"([^"]*)"\<close> and the same for \<^verbatim>\<open>strcpy\<close>\<close>

definition reply_pattern :: rx where
  \<open>reply_pattern = rx_seq
     [Lit ''sprintf'', Many is_space, Lit ''('', Many is_space, Lit ''reply'', Many is_space,
      Lit '','', Many is_space, Lit ''"'', Grp 1 (Many (\<lambda>c. c \<noteq> CHR ''"'')), Lit ''"'']\<close>

definition strcpy_pattern :: rx where
  \<open>strcpy_pattern = rx_seq
     [Lit ''strcpy'', Many is_space, Lit ''('', Many is_space, Lit ''reply'', Many is_space,
      Lit '','', Many is_space, Lit ''"'', Grp 1 (Many (\<lambda>c. c \<noteq> CHR ''"'')), Lit ''"'']\<close>

text \<open>\<^verbatim>\<open>sender_timestamp\s*==\s*0\<close>\<close>

definition serial_only_pattern :: rx where
  "serial_only_pattern = rx_seq
     [Lit ''sender_timestamp'', Many is_space, Lit ''=='', Many is_space, Lit ''0'']"

subsection \<open>Classification, serial-only names, descriptions, reply formats\<close>

definition classify_command :: "string \<Rightarrow> string" where
  "classify_command cmd =
     (if prefix ''get '' cmd then ''get''
      else if prefix ''set '' cmd then ''set''
      else if prefix ''log'' cmd then ''logging''
      else if prefix ''gps'' cmd then ''gps''
      else if prefix ''sensor'' cmd then ''sensor''
      else if prefix ''bridge'' cmd then ''bridge''
      else if prefix ''stats'' cmd then ''stats''
      else if cmd \<in> set [''neighbors'', ''neighbor.remove''] then ''neighbor''
      else if cmd \<in> set [''reboot'', ''advert'', ''clock'', ''clock sync'', ''time'', ''ver'',
                           ''board'', ''erase'', ''start ota'', ''clear stats'', ''password'']
        then ''system''
      else if cmd = ''tempradio'' then ''radio''
      else ''other'')"

definition is_serial_only_command :: "string \<Rightarrow> bool" where
  "is_serial_only_command cmd =
     (cmd \<in> set [''get prv.key'', ''set prv.key'', ''erase'', ''log'',
                  ''stats-packets'', ''stats-radio'', ''stats-core'', ''set freq''])"

text \<open>
  \<open>clean_response_format\<close>: \<^verbatim>\<open>not fmt\<close> holds for \<^verbatim>\<open>None\<close> and for the empty
  string. The four substitutions are \<^verbatim>\<open>%0?2?d\<close>, \<^verbatim>\<open>%s\<close>, \<^verbatim>\<open>%u\<close> and
  \<^verbatim>\<open>%.?\d*f\<close>, in this order; the dot matches every character but the newline.
\<close>

definition int_spec :: rx where
  "int_spec = rx_seq [Lit ''%'', Opt (Lit ''0''), Opt (Lit ''2''), Lit ''d'']"

definition str_spec :: rx where
  "str_spec = Lit ''%s''"

definition uint_spec :: rx where
  "uint_spec = Lit ''%u''"

definition float_spec :: rx where
  "float_spec = rx_seq [Lit ''%'', Opt (One (\<lambda>c. c \<noteq> CHR 0x0A)), Many is_digit, Lit ''f'']"

definition clean_response_format :: "string option \<Rightarrow> string option" where
  "clean_response_format fmt =
     (case fmt of
        None \<Rightarrow> None
      | Some f \<Rightarrow>
          if f = [] then None
          else Some (re_sub float_spec (\<lambda>_. ''{float}'')
                      (re_sub uint_spec (\<lambda>_. ''{uint}'')
                        (re_sub str_spec (\<lambda>_. ''{str}'')
                          (re_sub int_spec (\<lambda>_. ''{int}'') f)))))"

definition descriptions :: "(string \<times> string) list" where
  \<open>descriptions = [
    (''reboot'', ''Reboot the device''),
    (''advert'', ''Send self advertisement''),
    (''clock'', ''Display current time''),
    (''clock sync'', ''Sync clock from sender timestamp''),
    (''time'', ''Set time to epoch seconds''),
    (''ver'', ''Show firmware version and build date''),
    (''board'', ''Show board/manufacturer name''),
    (''erase'', ''Erase filesystem (serial only)''),
    (''start ota'', ''Start OTA firmware update''),
    (''clear stats'', ''Reset statistics counters''),
    (''password'', ''Change admin password''),
    (''get af'', ''Get airtime factor''),
    (''get name'', ''Get node name''),
    (''get repeat'', ''Get repeat/forward status (on/off)''),
    (''get lat'', ''Get latitude''),
    (''get lon'', ''Get longitude''),
    (''get radio'', ''Get radio params (freq,bw,sf,cr)''),
    (''get freq'', ''Get frequency (MHz)''),
    (''get tx'', ''Get TX power (dBm)''),
    (''get public.key'', ''Get public key (hex)''),
    (''get prv.key'', ''Get private key (serial only)''),
    (''get role'', ''Get device role''),
    (''get rxdelay'', ''Get RX delay base''),
    (''get txdelay'', ''Get TX delay factor''),
    (''get direct.txdelay'', ''Get direct TX delay factor''),
    (''get flood.max'', ''Get max flood hops''),
    (''get guest.password'', ''Get guest password''),
    (''get allow.read.only'', ''Get read-only access setting''),
    (''get advert.interval'', ''Get local advert interval (minutes)''),
    (''get flood.advert.interval'', ''Get flood advert interval (hours)''),
    (''get int.thresh'', ''Get interference threshold''),
    (''get agc.reset.interval'', ''Get AGC reset interval (seconds)''),
    (''get multi.acks'', ''Get multi-ack setting''),
    (''get adc.multiplier'', ''Get ADC multiplier for battery''),
    (''get bridge.type'', ''Get bridge type (rs232/espnow/none)''),
    (''get bridge.enabled'', ''Get bridge enabled status''),
    (''get bridge.delay'', ''Get bridge delay (ms)''),
    (''get bridge.source'', ''Get bridge packet source''),
    (''get bridge.baud'', ''Get bridge baud rate''),
    (''get bridge.channel'', ''Get bridge channel (ESP-NOW)''),
    (''get bridge.secret'', ''Get bridge encryption secret''),
    (''set af'', ''Set airtime factor (0-9)''),
    (''set name'', ''Set node name''),
    (''set repeat'', ''Set repeat/forward (on/off)''),
    (''set lat'', ''Set latitude''),
    (''set lon'', ''Set longitude''),
    (''set radio'', ''Set radio params (freq bw sf cr)''),
    (''set freq'', ''Set frequency MHz (serial only, reboot required)''),
    (''set tx'', ''Set TX power (dBm)''),
    (''set prv.key'', ''Set private key (serial only)''),
    (''set rxdelay'', ''Set RX delay base''),
    (''set txdelay'', ''Set TX delay factor''),
    (''set direct.txdelay'', ''Set direct TX delay factor''),
    (''set flood.max'', ''Set max flood hops (0-64)''),
    (''set guest.password'', ''Set guest password''),
    (''set allow.read.only'', ''Set read-only access (on/off)''),
    (''set advert.interval'', ''Set local advert interval (60-240 min, 0=off)''),
    (''set flood.advert.interval'', ''Set flood advert interval (3-48 hours, 0=off)''),
    (''set int.thresh'', ''Set interference threshold''),
    (''set agc.reset.interval'', ''Set AGC reset interval (seconds, rounded to 4)''),
    (''set multi.acks'', ''Set multi-ack (0/1)''),
    (''set adc.multiplier'', ''Set ADC multiplier''),
    (''set bridge.enabled'', ''Enable/disable bridge''),
    (''set bridge.delay'', ''Set bridge delay (0-10000 ms)''),
    (''set bridge.source'', ''Set bridge source (rx/tx)''),
    (''set bridge.baud'', ''Set bridge baud (9600-115200)''),
    (''set bridge.channel'', ''Set bridge channel (1-14)''),
    (''set bridge.secret'', ''Set bridge encryption secret''),
    (''neighbors'', ''List neighbors''),
    (''neighbor.remove'', ''Remove neighbor by pubkey''),
    (''tempradio'', ''Apply temporary radio params (freq bw sf cr timeout_mins)''),
    (''log'', ''Dump log file (serial only)''),
    (''log start'', ''Start packet logging''),
    (''log stop'', ''Stop packet logging''),
    (''log erase'', ''Erase log file''),
    (''stats-packets'', ''Show packet statistics (serial only)''),
    (''stats-radio'', ''Show radio statistics (serial only)''),
    (''stats-core'', ''Show core statistics (serial only)''),
    (''sensor get'', ''Get sensor/custom variable value''),
    (''sensor set'', ''Set sensor/custom variable value''),
    (''sensor list'', ''List all sensor/custom variables''),
    (''gps'', ''Show GPS status''),
    (''gps on'', ''Enable GPS''),
    (''gps off'', ''Disable GPS''),
    (''gps sync'', ''Sync time from GPS''),
    (''gps setloc'', ''Set node location from GPS''),
    (''gps advert'', ''Get/set GPS advert location policy'')]\<close>

text \<open>\<^verbatim>\<open>descriptions.get(cmd, f"Execute {cmd} command")\<close>\<close>

definition generate_description :: "string \<Rightarrow> string" where
  "generate_description cmd =
     (case map_of descriptions cmd of
        Some d \<Rightarrow> d
      | None \<Rightarrow> ''Execute '' @ cmd @ '' command'')"

subsection \<open>The command descriptor and the scanning state\<close>

record param =
  pname :: string
  ptype :: string

record command =
  name :: string
  category :: string
  params :: "param list"
  response_format :: "string option"
  description :: string
  serial_only :: bool
  has_param :: bool

record scan_ctx =
  current_category :: "string option"
  in_get_block :: bool
  in_set_block :: bool
  serial_only_context :: bool

definition initial_ctx :: scan_ctx where
  "initial_ctx = \<lparr>current_category = None, in_get_block = False, in_set_block = False,
                  serial_only_context = False\<rparr>"

text \<open>Lines 92 to 93: a serial-only marker on the line sets the flag.\<close>

definition track_serial_only :: "string \<Rightarrow> scan_ctx \<Rightarrow> scan_ctx" where
  "track_serial_only line ctx =
     (if re_search serial_only_pattern line \<noteq> None
      then ctx\<lparr>serial_only_context := True\<rparr> else ctx)"

text \<open>Lines 96 to 109: entering and leaving the get and set blocks.\<close>

definition track_blocks :: "string \<Rightarrow> scan_ctx \<Rightarrow> scan_ctx" where
  \<open>track_blocks line ctx =
     (if contains ''GET commands'' line \<or> contains ''memcmp(command, "get ", 4)'' line
        then ctx\<lparr>in_get_block := True, in_set_block := False, current_category := Some ''get''\<rparr>
      else if contains ''SET commands'' line \<or> contains ''memcmp(command, "set ", 4)'' line
        then ctx\<lparr>in_set_block := True, in_get_block := False, current_category := Some ''set''\<rparr>
      else if in_get_block ctx \<and> contains ''} else if (memcmp(command'' line
                \<and> \<not> contains ''get '' line
        then ctx\<lparr>in_get_block := False, current_category := None\<rparr>
      else if in_set_block ctx \<and> contains ''} else if (memcmp(command'' line
                \<and> \<not> contains ''set '' line
        then ctx\<lparr>in_set_block := False, current_category := None\<rparr>
      else ctx)\<close>

text \<open>Lines 175 to 176: a line that starts, once stripped, with \<^verbatim>\<open>} else\<close> clears the flag.\<close>

definition reset_serial_only :: "string \<Rightarrow> scan_ctx \<Rightarrow> scan_ctx" where
  "reset_serial_only line ctx =
     (if prefix ''} else'' (strip line) then ctx\<lparr>serial_only_context := False\<rparr> else ctx)"

subsection \<open>The lookahead scan\<close>

text \<open>
  Lines 139 to 157, the body of the loop over \<open>j\<close>. \<^verbatim>\<open>not response_format\<close> holds
  when no template is recorded yet and when the recorded template is empty.
\<close>

definition falsy :: "string option \<Rightarrow> bool" where
  "falsy r = (r = None \<or> r = Some [])"

definition record_reply :: "rx \<Rightarrow> string \<Rightarrow> string option \<Rightarrow> string option" where
  "record_reply pat context_line reply_fmt =
     (case re_search pat context_line of
        None \<Rightarrow> reply_fmt
      | Some m \<Rightarrow> if falsy reply_fmt then group m 1 else reply_fmt)"

definition value_param :: "string \<Rightarrow> param" where
  "value_param t = \<lparr>pname = ''value'', ptype = t\<rparr>"

definition record_param :: "string \<Rightarrow> param list \<Rightarrow> param list" where
  "record_param context_line ps =
     (if contains ''atof('' context_line then ps @ [value_param ''float'']
      else if contains ''atoi('' context_line \<or> contains ''_atoi('' context_line
        then ps @ [value_param ''int'']
      else if contains ''strncpy('' context_line \<or> contains ''StrHelper::strncpy('' context_line
        then ps @ [value_param ''string'']
      else ps)"

definition scan_context_line ::
  "string \<Rightarrow> string option \<times> param list \<Rightarrow> string option \<times> param list" where
  "scan_context_line context_line st =
     (case st of (reply_fmt, ps) \<Rightarrow>
        (record_reply strcpy_pattern context_line
           (record_reply reply_pattern context_line reply_fmt),
         record_param context_line ps))"

text \<open>\<^verbatim>\<open>for j in range(i, min(i + 15, len(lines)))\<close>, from \<^verbatim>\<open>None\<close> and \<^verbatim>\<open>[]\<close>.\<close>

definition lookahead :: "string list \<Rightarrow> nat \<Rightarrow> string option \<times> param list" where
  "lookahead lines i =
     foldl (\<lambda>st j. scan_context_line (lines ! j) st) (None, [])
       [i ..< min (i + 15) (length lines)]"

subsection \<open>\<open>parse_commands\<close>\<close>

text \<open>
  Lines 114 to 172: the descriptor computed at a line where the command pattern matched
  with groups \<open>m\<close>. The third group, the declared length, is converted and not used.
\<close>

definition full_command :: "scan_ctx \<Rightarrow> string \<Rightarrow> string \<Rightarrow> string \<times> string" where
  "full_command ctx var_name cmd_str =
     (if var_name = ''config'' then
        (if in_get_block ctx then (''get '' @ strip cmd_str, ''get'')
         else if in_set_block ctx then (''set '' @ strip cmd_str, ''set'')
         else (strip cmd_str, ''config''))
      else (strip cmd_str, classify_command (strip cmd_str)))"

text \<open>
  A group read as a string. The groups read this way are outside every alternative and
  optional part of their pattern, so they take part in every match of it.
\<close>

definition group_str :: "groups \<Rightarrow> nat \<Rightarrow> string" where
  "group_str m n = (case group m n of Some s \<Rightarrow> s | None \<Rightarrow> [])"

definition build_command :: "string list \<Rightarrow> nat \<Rightarrow> scan_ctx \<Rightarrow> groups \<Rightarrow> command" where
  "build_command lines i ctx m =
     (let var_name = group_str m 1;
          cmd_str = group_str m 2;
          (full_cmd, cat) = full_command ctx var_name cmd_str;
          (reply_fmt, ps) = lookahead lines i;
          is_serial_only = (serial_only_context ctx \<or> is_serial_only_command full_cmd)
      in \<lparr>name = full_cmd,
          category = cat,
          params = ps,
          response_format = clean_response_format reply_fmt,
          description = generate_description full_cmd,
          serial_only = is_serial_only,
          has_param = (CHR '' '' \<in> set cmd_str \<or> length ps > 0)\<rparr>)"

text \<open>Lines 163 to 172: a descriptor is appended unless its name is already there.\<close>

definition add_command :: "command list \<Rightarrow> command \<Rightarrow> command list" where
  "add_command commands d =
     (if list_ex (\<lambda>c. name c = name d) commands then commands else commands @ [d])"

text \<open>The state of the scan at the command match of a line, and after the line.\<close>

definition ctx_at_match :: "string \<Rightarrow> scan_ctx \<Rightarrow> scan_ctx" where
  "ctx_at_match line ctx = track_blocks line (track_serial_only line ctx)"

definition ctx_after :: "string \<Rightarrow> scan_ctx \<Rightarrow> scan_ctx" where
  "ctx_after line ctx = reset_serial_only line (ctx_at_match line ctx)"

text \<open>The \<^verbatim>\<open>while i < len(lines)\<close> loop of lines 88 to 178.\<close>

function parse_loop ::
  "string list \<Rightarrow> nat \<Rightarrow> scan_ctx \<Rightarrow> command list \<Rightarrow> command list" where
  "parse_loop lines i ctx commands =
     (if i < length lines then
        (let line = lines ! i;
             commands' =
               (case re_search cmd_pattern line of
                  None \<Rightarrow> commands
                | Some m \<Rightarrow> add_command commands (build_command lines i (ctx_at_match line ctx) m))
         in parse_loop lines (i + 1) (ctx_after line ctx) commands')
      else commands)"
  by pat_completeness auto
termination
  by (relation "measure (\<lambda>(lines, i, ctx, commands). length lines - i)") auto

definition parse_commands :: "string \<Rightarrow> command list" where
  "parse_commands cpp_source = parse_loop (split_newline cpp_source) 0 initial_ctx []"

subsection \<open>\<open>parse_prefs_struct\<close>\<close>

text \<open>
  \<^verbatim>\<open>struct NodePrefs\s*\{([^}]+)\}\<close>, and for the fields
  \<^verbatim>\<open>(float|double|char|uint8_t|uint16_t|uint32_t|int)\s+(\w+)(?:\[(\d+)\])?\<close>.
\<close>

definition struct_pattern :: rx where
  "struct_pattern = rx_seq
     [Lit ''struct NodePrefs'', Many is_space, Lit ''{'',
      Grp 1 (Many1 (\<lambda>c. c \<noteq> CHR ''}'')), Lit ''}'']"

definition field_pattern :: rx where
  "field_pattern = rx_seq
     [Grp 1 (Alt (Lit ''float'') (Alt (Lit ''double'') (Alt (Lit ''char'')
        (Alt (Lit ''uint8_t'') (Alt (Lit ''uint16_t'') (Alt (Lit ''uint32_t'') (Lit ''int''))))))),
      Many1 is_space, Grp 2 (Many1 is_word),
      Opt (rx_seq [Lit ''['', Grp 3 (Many1 is_digit), Lit '']''])]"

record field_info =
  ftype :: string
  array_size :: "nat option"

definition set_field :: "(string \<rightharpoonup> field_info) \<Rightarrow> groups \<Rightarrow> (string \<rightharpoonup> field_info)" where
  "set_field prefs m =
     prefs(group_str m 2 \<mapsto>
       \<lparr>ftype = group_str m 1,
        array_size = (case group m 3 of
                        None \<Rightarrow> None
                      | Some a \<Rightarrow> if a = [] then None else Some (int_of_digits a))\<rparr>)"

definition parse_prefs_struct :: "string \<Rightarrow> (string \<rightharpoonup> field_info)" where
  "parse_prefs_struct header_source =
     (case re_search struct_pattern header_source of
        None \<Rightarrow> Map.empty
      | Some struct_match \<Rightarrow>
          foldl set_field Map.empty (finditer field_pattern (group_str struct_match 1)))"

section \<open>patches/mesh\_cli\_enhancements.py\<close>

subsection \<open>String operations\<close>

text \<open>\<^verbatim>\<open>s.find(sub)\<close>, \<^verbatim>\<open>s.find(sub, start)\<close> and \<^verbatim>\<open>s.rfind(sub)\<close>: an index, or -1.\<close>

fun find_index :: "string \<Rightarrow> string \<Rightarrow> nat option" where
  "find_index sub [] = (if sub = [] then Some 0 else None)"
| "find_index sub (c # cs) =
     (if prefix sub (c # cs) then Some 0 else map_option Suc (find_index sub cs))"

fun rfind_index :: "string \<Rightarrow> string \<Rightarrow> nat option" where
  "rfind_index sub [] = (if sub = [] then Some 0 else None)"
| "rfind_index sub (c # cs) =
     (case rfind_index sub cs of
        Some n \<Rightarrow> Some (Suc n)
      | None \<Rightarrow> if prefix sub (c # cs) then Some 0 else None)"

definition str_find :: "string \<Rightarrow> string \<Rightarrow> int" where
  "str_find s sub = (case find_index sub s of None \<Rightarrow> - 1 | Some n \<Rightarrow> int n)"

definition str_find_from :: "string \<Rightarrow> string \<Rightarrow> nat \<Rightarrow> int" where
  "str_find_from s sub start =
     (if start > length s then - 1
      else case find_index sub (drop start s) of None \<Rightarrow> - 1 | Some n \<Rightarrow> int (start + n))"

definition str_rfind :: "string \<Rightarrow> string \<Rightarrow> int" where
  "str_rfind s sub = (case rfind_index sub s of None \<Rightarrow> - 1 | Some n \<Rightarrow> int n)"

text \<open>\<^verbatim>\<open>s.replace(old, new)\<close>: every occurrence, from the left, without overlap.\<close>

fun replace :: "string \<Rightarrow> string \<Rightarrow> string \<Rightarrow> string" where
  "replace old new [] = (if old = [] then new else [])"
| "replace old new (c # cs) =
     (if old = [] then new @ c # replace old new cs
      else if prefix old (c # cs) then new @ replace old new (drop (length old - 1) cs)
      else c # replace old new cs)"

subsection \<open>The texts of the edits\<close>

text \<open>
  Each text is the concatenation of its lines, every line with its newline but for the last
  line of a text that does not end in one.
\<close>

definition old_reboot :: string where
  \<open>old_reboot = concat
     [''def _cmd_reboot(self) -> str:\<newline>'',
      ''        """Reboot the repeater process."""\<newline>'',
      ''        logger.warning("Reboot command received - not implemented (use systemctl restart)")\<newline>'',
      ''        return "Error: Use systemctl restart pymc-repeater"'']\<close>

definition new_reboot :: string where
  \<open>new_reboot = concat
     [''def _cmd_reboot(self) -> str:\<newline>'',
      ''        """Reboot the repeater process via systemctl."""\<newline>'',
      ''        try:\<newline>'',
      ''            import asyncio\<newline>'',
      ''            \<newline>'',
      ''            async def delayed_restart():\<newline>'',
      ''                """Delay restart to let CLI response send first."""\<newline>'',
      ''                await asyncio.sleep(0.5)\<newline>'',
      ''                subprocess.Popen(\<newline>'',
      ''                    ["systemctl", "restart", "pymc-repeater"],\<newline>'',
      ''                    stdout=subprocess.DEVNULL,\<newline>'',
      ''                    stderr=subprocess.DEVNULL,\<newline>'',
      ''                    start_new_session=True\<newline>'',
      ''                )\<newline>'',
      ''            \<newline>'',
      ''            asyncio.create_task(delayed_restart())\<newline>'',
      ''            logger.info("Service restart scheduled")\<newline>'',
      ''            return "OK - rebooting..."\<newline>'',
      ''        except Exception as e:\<newline>'',
      ''            logger.error(f"Failed to schedule restart: {e}")\<newline>'',
      ''            return f"Error: {e}"'']\<close>

definition old_clear_stats :: string where
  \<open>old_clear_stats = concat
     [''def _cmd_clear_stats(self) -> str:\<newline>'',
      ''        """Clear statistics."""\<newline>'',
      ''        # TODO: Implement stats clearing\<newline>'',
      ''        return "Error: Not yet implemented"'']\<close>

definition new_clear_stats :: string where
  \<open>new_clear_stats = concat
     [''def _cmd_clear_stats(self) -> str:\<newline>'',
      ''        """Clear statistics counters."""\<newline>'',
      ''        if not self.storage_handler:\<newline>'',
      ''            return "Error: Storage not available"\<newline>'',
      ''        \<newline>'',
      ''        try:\<newline>'',
      ''            # Clear packet stats if method exists\<newline>'',
      ''            if hasattr(self.storage_handler, 'clear_stats'):\<newline>'',
      ''                self.storage_handler.clear_stats()\<newline>'',
      ''                logger.info("Statistics cleared via CLI")\<newline>'',
      ''                return "OK - stats reset"\<newline>'',
      ''            else:\<newline>'',
      ''                # Fallback: just log that we would clear\<newline>'',
      ''                logger.info("clear stats requested (storage_handler.clear_stats not available)")\<newline>'',
      ''                return "OK - stats reset"\<newline>'',
      ''        except Exception as e:\<newline>'',
      ''            logger.error(f"Failed to clear stats: {e}")\<newline>'',
      ''            return f"Error: {e}"'']\<close>

definition old_neighbor_remove :: string where
  \<open>old_neighbor_remove = concat
     [''def _cmd_neighbor_remove(self, command: str) -> str:\<newline>'',
      ''        """Remove a neighbor."""\<newline>'',
      ''        pubkey_hex = command[16:].strip()\<newline>'',
      ''        \<newline>'',
      ''        if not pubkey_hex:\<newline>'',
      ''            return "ERR: Missing pubkey"\<newline>'',
      ''        \<newline>'',
      ''        # TODO: Remove neighbor from routing table\<newline>'',
      ''        logger.info(f"neighbor.remove: {pubkey_hex}")\<newline>'',
      ''        return "Error: Not yet implemented"'']\<close>

definition new_neighbor_remove :: string where
  \<open>new_neighbor_remove = concat
     [''def _cmd_neighbor_remove(self, command: str) -> str:\<newline>'',
      ''        """Remove a neighbor by pubkey prefix."""\<newline>'',
      ''        pubkey_hex = command[16:].strip()\<newline>'',
      ''        \<newline>'',
      ''        if not pubkey_hex:\<newline>'',
      ''            return "ERR: Missing pubkey"\<newline>'',
      ''        \<newline>'',
      ''        if not self.storage_handler:\<newline>'',
      ''            return "Error: Storage not available"\<newline>'',
      ''        \<newline>'',
      ''        try:\<newline>'',
      ''            # Try to remove neighbor if method exists\<newline>'',
      ''            if hasattr(self.storage_handler, 'remove_neighbor'):\<newline>'',
      ''                removed = self.storage_handler.remove_neighbor(pubkey_hex)\<newline>'',
      ''                if removed:\<newline>'',
      ''                    logger.info(f"Removed neighbor: {pubkey_hex}")\<newline>'',
      ''                    return "OK"\<newline>'',
      ''                else:\<newline>'',
      ''                    return f"Error: Neighbor {pubkey_hex} not found"\<newline>'',
      ''            else:\<newline>'',
      ''                # Fallback: check if neighbor exists and log\<newline>'',
      ''                neighbors = self.storage_handler.get_neighbors() if hasattr(self.storage_handler, 'get_neighbors') else {}\<newline>'',
      ''                matching = [k for k in neighbors.keys() if k.startswith(pubkey_hex)]\<newline>'',
      ''                if matching:\<newline>'',
      ''                    logger.info(f"neighbor.remove requested for {pubkey_hex} (remove_neighbor not available)")\<newline>'',
      ''                    return f"OK - marked for removal: {matching[0][:16]}"\<newline>'',
      ''                else:\<newline>'',
      ''                    return f"Error: Neighbor {pubkey_hex} not found"\<newline>'',
      ''        except Exception as e:\<newline>'',
      ''            logger.error(f"Failed to remove neighbor: {e}")\<newline>'',
      ''            return f"Error: {e}"'']\<close>

definition old_tempradio :: string where
  \<open>old_tempradio = concat
     [''def _cmd_tempradio(self, command: str) -> str:\<newline>'',
      ''        """Apply temporary radio parameters."""\<newline>'',
      ''        # Format: tempradio {freq} {bw} {sf} {cr} {timeout_mins}\<newline>'',
      ''        parts = command[10:].split()\<newline>'',
      ''        \<newline>'',
      ''        if len(parts) < 5:\<newline>'',
      ''            return "Error: Expected freq bw sf cr timeout_mins"\<newline>'',
      ''        \<newline>'',
      ''        try:\<newline>'',
      ''            freq = float(parts[0])\<newline>'',
      ''            bw = float(parts[1])\<newline>'',
      ''            sf = int(parts[2])\<newline>'',
      ''            cr = int(parts[3])\<newline>'',
      ''            timeout_mins = int(parts[4])\<newline>'',
      ''            \<newline>'',
      ''            # Validate\<newline>'',
      ''            if not (300.0 <= freq <= 2500.0):\<newline>'',
      ''                return "Error: invalid frequency"\<newline>'',
      ''            if not (7.0 <= bw <= 500.0):\<newline>'',
      ''                return "Error: invalid bandwidth"\<newline>'',
      ''            if not (5 <= sf <= 12):\<newline>'',
      ''                return "Error: invalid spreading factor"\<newline>'',
      ''            if not (5 <= cr <= 8):\<newline>'',
      ''                return "Error: invalid coding rate"\<newline>'',
      ''            if timeout_mins <= 0:\<newline>'',
      ''                return "Error: invalid timeout"\<newline>'',
      ''            \<newline>'',
      ''            # TODO: Apply temporary radio parameters\<newline>'',
      ''            logger.info(f"tempradio: {freq}MHz {bw}kHz SF{sf} CR4/{cr} for {timeout_mins}min")\<newline>'',
      ''            return "Error: Not yet implemented"\<newline>'',
      ''            \<newline>'',
      ''        except ValueError:\<newline>'',
      ''            return "Error, invalid params"'']\<close>

definition new_tempradio :: string where
  \<open>new_tempradio = concat
     [''def _cmd_tempradio(self, command: str) -> str:\<newline>'',
      ''        """Apply temporary radio parameters with auto-revert.\<newline>'',
      ''        \<newline>'',
      ''        Format: tempradio {freq} {bw} {sf} {cr} {timeout_mins}\<newline>'',
      ''        \<newline>'',
      ''        Saves current radio config, applies new params, schedules revert.\<newline>'',
      ''        After timeout_mins, restores original config and restarts service.\<newline>'',
      ''        """\<newline>'',
      ''        parts = command[10:].split()\<newline>'',
      ''        \<newline>'',
      ''        if len(parts) < 5:\<newline>'',
      ''            return "Error: Expected freq bw sf cr timeout_mins"\<newline>'',
      ''        \<newline>'',
      ''        try:\<newline>'',
      ''            freq = float(parts[0])\<newline>'',
      ''            bw = float(parts[1])\<newline>'',
      ''            sf = int(parts[2])\<newline>'',
      ''            cr = int(parts[3])\<newline>'',
      ''            timeout_mins = int(parts[4])\<newline>'',
      ''            \<newline>'',
      ''            # Validate (MeshCore ranges)\<newline>'',
      ''            if not (300.0 <= freq <= 2500.0):\<newline>'',
      ''                return "Error: invalid frequency"\<newline>'',
      ''            if not (7.0 <= bw <= 500.0):\<newline>'',
      ''                return "Error: invalid bandwidth"\<newline>'',
      ''            if not (5 <= sf <= 12):\<newline>'',
      ''                return "Error: invalid spreading factor"\<newline>'',
      ''            if not (5 <= cr <= 8):\<newline>'',
      ''                return "Error: invalid coding rate"\<newline>'',
      ''            if timeout_mins <= 0 or timeout_mins > 1440:\<newline>'',
      ''                return "Error: timeout must be 1-1440 minutes"\<newline>'',
      ''            \<newline>'',
      ''            # Cancel any existing tempradio task\<newline>'',
      ''            if self._tempradio_task and not self._tempradio_task.done():\<newline>'',
      ''                self._tempradio_task.cancel()\<newline>'',
      ''                logger.info("Cancelled previous tempradio timer")\<newline>'',
      ''            \<newline>'',
      ''            # Save original config (only if not already saved)\<newline>'',
      ''            if self._tempradio_original_config is None:\<newline>'',
      ''                self._tempradio_original_config = {\<newline>'',
      ''                    'frequency': self.config.get('radio', {}).get('frequency'),\<newline>'',
      ''                    'bandwidth': self.config.get('radio', {}).get('bandwidth'),\<newline>'',
      ''                    'spreading_factor': self.config.get('radio', {}).get('spreading_factor'),\<newline>'',
      ''                    'coding_rate': self.config.get('radio', {}).get('coding_rate'),\<newline>'',
      ''                }\<newline>'',
      ''                logger.info(f"Saved original radio config: {self._tempradio_original_config}")\<newline>'',
      ''            \<newline>'',
      ''            # Apply new config\<newline>'',
      ''            if 'radio' not in self.config:\<newline>'',
      ''                self.config['radio'] = {}\<newline>'',
      ''            \<newline>'',
      ''            self.config['radio']['frequency'] = int(freq * 1_000_000)  # MHz to Hz\<newline>'',
      ''            self.config['radio']['bandwidth'] = int(bw * 1000)  # kHz to Hz\<newline>'',
      ''            self.config['radio']['spreading_factor'] = sf\<newline>'',
      ''            self.config['radio']['coding_rate'] = cr\<newline>'',
      ''            self.save_config()\<newline>'',
      ''            \<newline>'',
      ''            logger.info(f"Applied tempradio: {freq}MHz {bw}kHz SF{sf} CR4/{cr} for {timeout_mins}min")\<newline>'',
      ''            \<newline>'',
      ''            # Schedule revert\<newline>'',
      ''            import asyncio\<newline>'',
      ''            \<newline>'',
      ''            async def revert_radio():\<newline>'',
      ''                """Revert to original radio config after timeout."""\<newline>'',
      ''                try:\<newline>'',
      ''                    await asyncio.sleep(timeout_mins * 60)\<newline>'',
      ''                    \<newline>'',
      ''                    # Restore original config\<newline>'',
      ''                    if self._tempradio_original_config:\<newline>'',
      ''                        for key, value in self._tempradio_original_config.items():\<newline>'',
      ''                            if value is not None:\<newline>'',
      ''                                self.config['radio'][key] = value\<newline>'',
      ''                        self.save_config()\<newline>'',
      ''                        self._tempradio_original_config = None\<newline>'',
      ''                        \<newline>'',
      ''                        logger.info("tempradio timeout - restored original config, restarting service")\<newline>'',
      ''                        \<newline>'',
      ''                        # Restart service to apply original config\<newline>'',
      ''                        subprocess.Popen(\<newline>'',
      ''                            ["systemctl", "restart", "pymc-repeater"],\<newline>'',
      ''                            stdout=subprocess.DEVNULL,\<newline>'',
      ''                            stderr=subprocess.DEVNULL,\<newline>'',
      ''                            start_new_session=True\<newline>'',
      ''                        )\<newline>'',
      ''                except asyncio.CancelledError:\<newline>'',
      ''                    logger.info("tempradio revert cancelled")\<newline>'',
      ''                except Exception as e:\<newline>'',
      ''                    logger.error(f"tempradio revert failed: {e}")\<newline>'',
      ''            \<newline>'',
      ''            self._tempradio_task = asyncio.create_task(revert_radio())\<newline>'',
      ''            \<newline>'',
      ''            return f"OK - temp params for {timeout_mins} mins"\<newline>'',
      ''            \<newline>'',
      ''        except ValueError:\<newline>'',
      ''            return "Error, invalid params"'']\<close>

definition old_stats_routing :: string where
  \<open>old_stats_routing = concat
     [''# Statistics commands\<newline>'',
      ''        elif command.startswith("stats-"):\<newline>'',
      ''            return "Error: Stats commands not fully implemented yet"'']\<close>

definition new_stats_routing :: string where
  \<open>new_stats_routing = concat
     [''# Statistics commands\<newline>'',
      ''        elif command == "stats-packets":\<newline>'',
      ''            return self._cmd_stats_packets()\<newline>'',
      ''        elif command == "stats-radio":\<newline>'',
      ''            return self._cmd_stats_radio()\<newline>'',
      ''        elif command == "stats-core":\<newline>'',
      ''            return self._cmd_stats_core()\<newline>'',
      ''        elif command.startswith("stats-"):\<newline>'',
      ''            return f"Unknown stats command: {command}"'']\<close>

definition old_ver_routing :: string where
  \<open>old_ver_routing = concat
     [''elif command == "ver":\<newline>'',
      ''            return self._cmd_version()'']\<close>

definition new_ver_routing :: string where
  \<open>new_ver_routing = concat
     [''elif command == "ver":\<newline>'',
      ''            return self._cmd_version()\<newline>'',
      ''        elif command == "board":\<newline>'',
      ''            return self._cmd_board()'']\<close>

definition stats_methods :: string where
  \<open>stats_methods = concat
     [''\<newline>'',
      ''    # ==================== Statistics Commands (pymc_console) ====================\<newline>'',
      ''    \<newline>'',
      ''    def _cmd_stats_packets(self) -> str:\<newline>'',
      ''        """Show packet statistics (MeshCore parity)."""\<newline>'',
      ''        if not self.storage_handler:\<newline>'',
      ''            return "Error: Storage not available"\<newline>'',
      ''        \<newline>'',
      ''        try:\<newline>'',
      ''            # Get stats from storage if available\<newline>'',
      ''            stats = {}\<newline>'',
      ''            if hasattr(self.storage_handler, 'get_packet_stats'):\<newline>'',
      ''                stats = self.storage_handler.get_packet_stats()\<newline>'',
      ''            elif hasattr(self.storage_handler, 'get_stats'):\<newline>'',
      ''                stats = self.storage_handler.get_stats()\<newline>'',
      ''            \<newline>'',
      ''            rx = stats.get('rx_count', stats.get('received', 0))\<newline>'',
      ''            tx = stats.get('tx_count', stats.get('transmitted', 0))\<newline>'',
      ''            fwd = stats.get('forwarded_count', stats.get('forwarded', 0))\<newline>'',
      ''            drop = stats.get('dropped_count', stats.get('dropped', 0))\<newline>'',
      ''            \<newline>'',
      ''            return f"rx: {rx}'' @ [CHR 0x5C] @ ''ntx: {tx}'' @ [CHR 0x5C] @ ''nfwd: {fwd}'' @ [CHR 0x5C] @ ''ndrop: {drop}"\<newline>'',
      ''        except Exception as e:\<newline>'',
      ''            logger.error(f"stats-packets error: {e}")\<newline>'',
      ''            return f"Error: {e}"\<newline>'',
      ''    \<newline>'',
      ''    def _cmd_stats_radio(self) -> str:\<newline>'',
      ''        """Show radio statistics (MeshCore parity)."""\<newline>'',
      ''        radio = self.config.get('radio', {})\<newline>'',
      ''        \<newline>'',
      ''        freq_hz = radio.get('frequency', 915000000)\<newline>'',
      ''        bw_hz = radio.get('bandwidth', 125000)\<newline>'',
      ''        sf = radio.get('spreading_factor', 7)\<newline>'',
      ''        cr = radio.get('coding_rate', 5)\<newline>'',
      ''        tx_power = radio.get('tx_power', 20)\<newline>'',
      ''        \<newline>'',
      ''        freq_mhz = freq_hz / 1_000_000.0\<newline>'',
      ''        bw_khz = bw_hz / 1_000.0\<newline>'',
      ''        \<newline>'',
      ''        # Get noise floor if available\<newline>'',
      ''        noise = "?"\<newline>'',
      ''        if self.storage_handler and hasattr(self.storage_handler, 'get_noise_floor'):\<newline>'',
      ''            noise = self.storage_handler.get_noise_floor()\<newline>'',
      ''        \<newline>'',
      ''        return (\<newline>'',
      ''            f"freq: {freq_mhz:.3f} MHz'' @ [CHR 0x5C] @ ''n"\<newline>'',
      ''            f"bw: {bw_khz:.0f} kHz'' @ [CHR 0x5C] @ ''n"\<newline>'',
      ''            f"sf: {sf}'' @ [CHR 0x5C] @ ''n"\<newline>'',
      ''            f"cr: {cr}'' @ [CHR 0x5C] @ ''n"\<newline>'',
      ''            f"tx_pwr: {tx_power} dBm'' @ [CHR 0x5C] @ ''n"\<newline>'',
      ''            f"noise: {noise} dBm"\<newline>'',
      ''        )\<newline>'',
      ''    \<newline>'',
      ''    def _cmd_stats_core(self) -> str:\<newline>'',
      ''        """Show core statistics (MeshCore parity)."""\<newline>'',
      ''        import time\<newline>'',
      ''        \<newline>'',
      ''        # Basic uptime (process start time not tracked, use placeholder)\<newline>'',
      ''        uptime_str = "unknown"\<newline>'',
      ''        \<newline>'',
      ''        # Get neighbor count\<newline>'',
      ''        neighbor_count = 0\<newline>'',
      ''        if self.storage_handler and hasattr(self.storage_handler, 'get_neighbors'):\<newline>'',
      ''            neighbors = self.storage_handler.get_neighbors()\<newline>'',
      ''            neighbor_count = len(neighbors) if neighbors else 0\<newline>'',
      ''        \<newline>'',
      ''        # Get stats\<newline>'',
      ''        stats = {}\<newline>'',
      ''        if self.storage_handler:\<newline>'',
      ''            if hasattr(self.storage_handler, 'get_stats'):\<newline>'',
      ''                stats = self.storage_handler.get_stats()\<newline>'',
      ''        \<newline>'',
      ''        rx_hr = stats.get('rx_per_hour', '?')\<newline>'',
      ''        fwd_hr = stats.get('forwarded_per_hour', '?')\<newline>'',
      ''        airtime = stats.get('utilization_percent', '?')\<newline>'',
      ''        \<newline>'',
      ''        return (\<newline>'',
      ''            f"uptime: {uptime_str}'' @ [CHR 0x5C] @ ''n"\<newline>'',
      ''            f"rx/hr: {rx_hr}'' @ [CHR 0x5C] @ ''n"\<newline>'',
      ''            f"fwd/hr: {fwd_hr}'' @ [CHR 0x5C] @ ''n"\<newline>'',
      ''            f"neighbors: {neighbor_count}'' @ [CHR 0x5C] @ ''n"\<newline>'',
      ''            f"airtime: {airtime}%"\<newline>'',
      ''        )\<newline>'',
      ''    \<newline>'',
      ''    def _cmd_board(self) -> str:\<newline>'',
      ''        """Show board/platform information (MeshCore parity)."""\<newline>'',
      ''        import platform\<newline>'',
      ''        return f"pyMC_Repeater ({platform.system()}/{platform.machine()})"\<newline>'']\<close>

text \<open>
  Patch 2: the pattern is the assignment to \<^verbatim>\<open>self.repeater_config\<close> with every special
  character escaped, as group 1; the replacement is \<^verbatim>\<open>\1\<close> followed by three lines.
\<close>

definition init_pattern :: rx where
  "init_pattern = Grp 1 (Lit ''self.repeater_config = config.get('repeater', {})'')"

definition init_replacement :: "groups \<Rightarrow> string" where
  "init_replacement m =
     group_str m 1 @
     ''\<newline>'' @
     ''        \<newline>'' @
     ''        # pymc_console: tempradio auto-revert state\<newline>'' @
     ''        self._tempradio_task = None\<newline>'' @
     ''        self._tempradio_original_config = None''"

subsection \<open>\<open>patch_file\<close>\<close>

text \<open>The text being edited and the names of the patches recorded as applied.\<close>

record patch_state =
  content :: string
  patches_applied :: "string list"

definition applied :: "string \<Rightarrow> string \<Rightarrow> patch_state \<Rightarrow> patch_state" where
  "applied new_content patch st =
     \<lparr>content = new_content, patches_applied = patches_applied st @ [patch]\<rparr>"

text \<open>Patch 1 (lines 44 to 57): the import of \<^verbatim>\<open>subprocess\<close>.\<close>

definition patch_imports :: "patch_state \<Rightarrow> patch_state" where
  "patch_imports st =
     (if \<not> contains ''import subprocess'' (content st) then
        (let logger_pos = str_find (content st) ''\<newline>logger = '' in
         if logger_pos > 0 then
           (let import_section = take (nat logger_pos) (content st);
                rest = drop (nat logger_pos) (content st) in
            if \<not> contains ''import subprocess'' import_section then
              applied
                (replace ''import time\<newline>''
                   ''import time\<newline>import subprocess  # pymc_console: for systemctl commands\<newline>''
                   import_section @ rest)
                ''imports'' st
            else st)
         else st)
      else st)"

text \<open>Patch 2 (lines 62 to 72).\<close>

definition patch_tempradio_state :: "patch_state \<Rightarrow> patch_state" where
  "patch_tempradio_state st =
     (if \<not> contains ''_tempradio_task'' (content st)
      then applied (re_sub init_pattern init_replacement (content st)) ''tempradio_state'' st
      else st)"

text \<open>Patches 3 to 7: an old block, where present, is replaced by the new one.\<close>

definition patch_replace :: "string \<Rightarrow> string \<Rightarrow> string \<Rightarrow> patch_state \<Rightarrow> patch_state" where
  "patch_replace old new patch st =
     (if contains old (content st)
      then applied (replace old new (content st)) patch st
      else st)"

text \<open>Patch 8 (lines 351 to 361).\<close>

definition patch_board_routing :: "patch_state \<Rightarrow> patch_state" where
  \<open>patch_board_routing st =
     (if \<not> contains ''command == "board"'' (content st)
      then patch_replace old_ver_routing new_ver_routing ''board_routing'' st
      else st)\<close>

text \<open>Patch 9 (lines 459 to 469).\<close>

definition patch_stats_methods :: "patch_state \<Rightarrow> patch_state" where
  \<open>patch_stats_methods st =
     (if \<not> contains ''def _cmd_stats_packets'' (content st) then
        (let log_method_end = str_rfind (content st) ''return "Unknown log command"'' in
         if log_method_end > 0 then
           (let newline_pos = str_find_from (content st) ''\<newline>'' (nat log_method_end) in
            if newline_pos > 0 then
              applied
                (take (nat newline_pos) (content st) @ stats_methods
                   @ drop (nat newline_pos) (content st))
                ''stats_methods'' st
            else st)
         else st)
      else st)\<close>

text \<open>The nine patches in their order, on the text read from the file.\<close>

definition apply_patches :: "string \<Rightarrow> patch_state" where
  "apply_patches original =
     patch_stats_methods
      (patch_board_routing
        (patch_replace old_stats_routing new_stats_routing ''stats_routing''
          (patch_replace old_tempradio new_tempradio ''tempradio''
            (patch_replace old_neighbor_remove new_neighbor_remove ''neighbor_remove''
              (patch_replace old_clear_stats new_clear_stats ''clear_stats''
                (patch_replace old_reboot new_reboot ''reboot''
                  (patch_tempradio_state
                    (patch_imports \<lparr>content = original, patches_applied = []\<rparr>))))))))"

definition patch_content :: "string \<Rightarrow> string" where
  "patch_content original = content (apply_patches original)"

text \<open>
  \<open>patch_file\<close> on a path: no file there, or the file's text. The file is written only
  when the text changed; both of these outcomes return \<^verbatim>\<open>True\<close>.
\<close>

datatype outcome =
    Not_Found
  | Patched string "string list"
  | No_Changes_Needed

definition patch_file :: "string option \<Rightarrow> outcome" where
  "patch_file file =
     (case file of
        None \<Rightarrow> Not_Found
      | Some original \<Rightarrow>
          (let st = apply_patches original in
           if content st \<noteq> original then Patched (content st) (patches_applied st)
           else No_Changes_Needed))"

definition returns_true :: "outcome \<Rightarrow> bool" where
  "returns_true out = (out \<noteq> Not_Found)"

declare parse_loop.simps [simp del]

section \<open>Notions used to state the properties\<close>

text \<open>
  The scanning state does not depend on the descriptors collected, so the state in which
  line \<open>i\<close> is reached is a fold over the lines before it. \<open>descriptor_at\<close> is the
  descriptor the loop computes at line \<open>i\<close> when the command pattern matches there, and
  \<open>command_matches\<close> lists these descriptors for all lines, in line order, duplicates
  included.
\<close>

definition ctx_before :: "string list \<Rightarrow> nat \<Rightarrow> scan_ctx" where
  "ctx_before lines i = foldl (\<lambda>ctx line. ctx_after line ctx) initial_ctx (take i lines)"

definition descriptor_at :: "string list \<Rightarrow> nat \<Rightarrow> command option" where
  "descriptor_at lines i =
     (case re_search cmd_pattern (lines ! i) of
        None \<Rightarrow> None
      | Some m \<Rightarrow>
          Some (build_command lines i (ctx_at_match (lines ! i) (ctx_before lines i)) m))"

definition command_matches :: "string list \<Rightarrow> command list" where
  "command_matches lines = List.map_filter (descriptor_at lines) [0 ..< length lines]"

text \<open>The lookahead scan run over a list of lines given as such.\<close>

definition scan_window :: "string list \<Rightarrow> string option \<times> param list" where
  "scan_window window = foldl (\<lambda>st line. scan_context_line line st) (None, []) window"

text \<open>What one line adds to the parameters, starting from none.\<close>

definition line_params :: "string \<Rightarrow> param list" where
  "line_params line = record_param line []"

text \<open>
  The templates of the reply calls of a line in the order the scan looks at them: the
  leftmost \<^verbatim>\<open>sprintf\<close> call, then the leftmost \<^verbatim>\<open>strcpy\<close> call.
\<close>

definition pattern_template :: "rx \<Rightarrow> string \<Rightarrow> string list" where
  "pattern_template pat line =
     (case re_search pat line of None \<Rightarrow> [] | Some m \<Rightarrow> [group_str m 1])"

definition line_templates :: "string \<Rightarrow> string list" where
  "line_templates line = pattern_template reply_pattern line @ pattern_template strcpy_pattern line"

definition window_templates :: "string list \<Rightarrow> nat \<Rightarrow> string list" where
  "window_templates lines i = concat (map line_templates (take 15 (drop i lines)))"

text \<open>Recording a template: it is kept unless a template that is not empty is already there.\<close>

definition keep :: "string option \<Rightarrow> string \<Rightarrow> string option" where
  "keep reply_fmt t = (if falsy reply_fmt then Some t else reply_fmt)"

text \<open>The closed set of category labels.\<close>

definition category_labels :: "string list" where
  "category_labels = [''get'', ''set'', ''logging'', ''gps'', ''sensor'', ''bridge'', ''stats'',
                      ''neighbor'', ''system'', ''radio'', ''config'', ''other'']"

text \<open>A text in which none of the four format specifiers occurs.\<close>

definition spec_free :: "string \<Rightarrow> bool" where
  "spec_free s =
     (re_search int_spec s = None \<and> re_search str_spec s = None
      \<and> re_search uint_spec s = None \<and> re_search float_spec s = None)"

text \<open>Group \<open>n\<close> is captured on every path through the expression.\<close>

fun binds :: "nat \<Rightarrow> rx \<Rightarrow> bool" where
  "binds n (Grp k r) = (k = n \<or> binds n r)"
| "binds n (Seq r1 r2) = (binds n r1 \<or> binds n r2)"
| "binds n (Alt r1 r2) = (binds n r1 \<and> binds n r2)"
| "binds n r = False"

text \<open>
  A command match at line 0, fourteen lines without calls, and at line 15 a reply call with
  a conversion call.
\<close>

definition late_calls :: "string list" where
  \<open>late_calls = ''if (memcmp(command, "ver", 3) == 0) {'' # replicate 14 ''  n++;''
     @ [''  sprintf(reply, "v%d", atoi(p));'']\<close>

text \<open>A line of a text that ends in a newline.\<close>

definition line_ok :: "string \<Rightarrow> bool" where
  "line_ok l = (l \<noteq> [] \<and> last l = CHR 0x0A)"

text \<open>
  A module whose \<^verbatim>\<open>logger\<close> is assigned after the class with the log method, and that
  imports neither \<^verbatim>\<open>time\<close> nor \<^verbatim>\<open>subprocess\<close>.
\<close>

definition late_logger_file :: string where
  \<open>late_logger_file = ''import logging\<newline>\<newline>class MeshCLI:\<newline>    def _cmd_log(self, command):\<newline>        return "Unknown log command"\<newline>\<newline>logger = logging.getLogger("mesh_cli")\<newline>''\<close>

text \<open>
  A text with none of the lines that patches 2 to 8 look for: the assignment of patch 2 and
  the first line of each old block.
\<close>

definition no_old_block :: "string \<Rightarrow> bool" where
  \<open>no_old_block s =
     (\<not> contains ''self.repeater_config = config.get('repeater', {})'' s \<and>
      \<not> contains ''def _cmd_reboot(self) -> str:'' s \<and>
      \<not> contains ''def _cmd_clear_stats(self) -> str:'' s \<and>
      \<not> contains ''def _cmd_neighbor_remove(self, command: str) -> str:'' s \<and>
      \<not> contains ''def _cmd_tempradio(self, command: str) -> str:'' s \<and>
      \<not> contains ''# Statistics commands'' s \<and>
      \<not> contains ''elif command == "ver":'' s)\<close>

section \<open>The scan loop as a fold\<close>

lemma ctx_before_Suc:
  "i < length lines \<Longrightarrow> ctx_before lines (Suc i) = ctx_after (lines ! i) (ctx_before lines i)"
  by (simp add: ctx_before_def take_Suc_conv_app_nth)

lemma parse_loop_fold:
  "parse_loop lines i (ctx_before lines i) cmds =
     foldl add_command cmds (List.map_filter (descriptor_at lines) [i ..< length lines])"
proof (induction "length lines - i" arbitrary: i cmds)
  case 0
  then show ?case by (simp add: parse_loop.simps map_filter_simps)
next
  case (Suc k)
  then have lt: "i < length lines" and k: "k = length lines - Suc i" by simp_all
  have step: "parse_loop lines (Suc i) (ctx_before lines (Suc i)) cs =
     foldl add_command cs (List.map_filter (descriptor_at lines) [Suc i ..< length lines])" for cs
    using Suc.hyps(1) [OF k] .
  show ?case
    using lt
    by (subst parse_loop.simps)
       (simp add: upt_conv_Cons map_filter_simps descriptor_at_def Let_def step
          ctx_before_Suc [symmetric] split: option.split)
qed

lemma parse_commands_fold:
  "parse_commands src = foldl add_command [] (command_matches (split_newline src))"
  using parse_loop_fold [of "split_newline src" 0 "[]"]
  by (simp add: parse_commands_def command_matches_def ctx_before_def)

lemma distinct_add_command:
  "distinct (map name cs) \<Longrightarrow> distinct (map name (add_command cs d))"
  by (auto simp: add_command_def list_ex_iff)

lemma distinct_foldl_add_command:
  "distinct (map name cs) \<Longrightarrow> distinct (map name (foldl add_command cs ds))"
  by (induction ds arbitrary: cs) (simp_all add: distinct_add_command)

lemma find_app:
  "find P (xs @ ys) = (case find P xs of Some x \<Rightarrow> Some x | None \<Rightarrow> find P ys)"
  by (induction xs) simp_all

lemma find_add_command:
  "find (\<lambda>c. name c = n) (add_command cs d) =
     (case find (\<lambda>c. name c = n) cs of
        Some c \<Rightarrow> Some c
      | None \<Rightarrow> if name d = n then Some d else None)"
proof (cases "list_ex (\<lambda>c. name c = name d) cs")
  case True
  then have "name d = n \<Longrightarrow> find (\<lambda>c. name c = n) cs \<noteq> None"
    by (auto simp: list_ex_iff find_None_iff)
  with True show ?thesis
    by (auto simp: add_command_def split: option.splits)
next
  case False
  then have "name d = n \<Longrightarrow> find (\<lambda>c. name c = n) cs = None"
    by (auto simp: list_ex_iff find_None_iff)
  with False show ?thesis
    by (auto simp: add_command_def find_app split: option.splits)
qed

lemma find_foldl_add_command:
  "find (\<lambda>c. name c = n) (foldl add_command cs ds) =
     (case find (\<lambda>c. name c = n) cs of
        Some c \<Rightarrow> Some c
      | None \<Rightarrow> find (\<lambda>c. name c = n) ds)"
  by (induction ds arbitrary: cs) (auto simp: find_add_command split: option.splits)

lemma set_foldl_add_command:
  "set (foldl add_command cs ds) \<subseteq> set cs \<union> set ds"
proof (induction ds arbitrary: cs)
  case Nil
  show ?case by simp
next
  case (Cons d ds)
  have "set (add_command cs d) \<subseteq> set cs \<union> {d}"
    by (auto simp: add_command_def)
  with Cons [of "add_command cs d"] show ?case by auto
qed

lemma command_matches_at:
  "d \<in> set (command_matches lines) \<Longrightarrow> \<exists>i<length lines. descriptor_at lines i = Some d"
  by (auto simp: command_matches_def List.map_filter_def)

section \<open>Properties of \<open>parse_commands\<close>\<close>

text \<open>
  C1. The names of the descriptors returned by \<open>parse_commands\<close> are pairwise
  different, every descriptor returned is one computed at a command match, and for every
  name the descriptor returned under it is the one computed at the first match that
  resolves to this name (none when no match does): later matches of the name are dropped.
\<close>

theorem parse_commands_first_wins:
  "distinct (map name (parse_commands src)) \<and>
   set (parse_commands src) \<subseteq> set (command_matches (split_newline src)) \<and>
   (\<forall>n. find (\<lambda>c. name c = n) (parse_commands src) =
        find (\<lambda>c. name c = n) (command_matches (split_newline src)))"
  using distinct_foldl_add_command [of "[]" "command_matches (split_newline src)"]
        set_foldl_add_command [of "[]" "command_matches (split_newline src)"]
  by (simp add: parse_commands_fold find_foldl_add_command)

section \<open>The lookahead window\<close>

lemma window_indices:
  "map ((!) xs) [i ..< min (i + n) (length xs)] = take n (drop i xs)"
proof (rule nth_equalityI)
  show "length (map ((!) xs) [i ..< min (i + n) (length xs)]) = length (take n (drop i xs))"
    by simp
next
  fix k
  assume "k < length (map ((!) xs) [i ..< min (i + n) (length xs)])"
  then have "k < n" and "i + k < length xs"
    by (simp_all add: min_def split: if_splits)
  then show "map ((!) xs) [i ..< min (i + n) (length xs)] ! k = take n (drop i xs) ! k"
    by simp
qed

lemma lookahead_scan_window: "lookahead lines i = scan_window (take 15 (drop i lines))"
proof -
  have "lookahead lines i =
        foldl (\<lambda>st line. scan_context_line line st) (None, [])
          (map ((!) lines) [i ..< min (i + 15) (length lines)])"
    by (simp add: lookahead_def foldl_map)
  then show ?thesis
    by (simp add: window_indices scan_window_def)
qed

lemma build_command_lookahead:
  "params (build_command lines i ctx m) = snd (lookahead lines i) \<and>
   response_format (build_command lines i ctx m) = clean_response_format (fst (lookahead lines i))"
  by (simp add: build_command_def Let_def split: prod.splits)


lemma scan_context_line_idle:
  "line_templates line = [] \<Longrightarrow> line_params line = [] \<Longrightarrow>
   scan_context_line line (None, []) = (None, [])"
  by (auto simp: scan_context_line_def line_templates_def pattern_template_def record_reply_def
        line_params_def split: option.splits)

lemma scan_window_idle:
  "\<forall>line\<in>set w. line_templates line = [] \<and> line_params line = [] \<Longrightarrow>
   scan_window w = (None, [])"
  unfolding scan_window_def
  by (induction w) (simp_all add: scan_context_line_idle)

text \<open>
  C2. The lookahead at line \<open>i\<close> is the scan of the 15 lines from line \<open>i\<close> on,
  line \<open>i\<close> included, or of the lines that are left when there are fewer. Two inputs
  that agree on these lines give the same lookahead at \<open>i\<close>, hence the same
  \<open>params\<close> and \<open>response_format\<close> in the descriptor computed there: a call at line
  \<open>i + 15\<close> or later adds nothing to it. When no line of the window has a reply call
  or a conversion call, the lookahead is no reply format and no parameter.
\<close>

theorem lookahead_bounded:
  "lookahead lines i = scan_window (take 15 (drop i lines)) \<and>
   (\<forall>lines'. take 15 (drop i lines') = take 15 (drop i lines) \<longrightarrow>
      lookahead lines' i = lookahead lines i \<and>
      params (build_command lines' i ctx m) = params (build_command lines i ctx m) \<and>
      response_format (build_command lines' i ctx m) =
        response_format (build_command lines i ctx m)) \<and>
   ((\<forall>line\<in>set (take 15 (drop i lines)). line_templates line = [] \<and> line_params line = [])
      \<longrightarrow> lookahead lines i = (None, []))"
  using scan_window_idle [of "take 15 (drop i lines)"]
  by (simp add: build_command_lookahead lookahead_scan_window)

text \<open>
  A reply call and a conversion call at line 15 after a match at line 0: the lookahead
  is the one of the first 15 lines alone, no reply format and no parameter.
\<close>

theorem lookahead_bounded_witness:
  \<open>take 15 (drop 0 (take 15 late_calls)) = take 15 (drop 0 late_calls) \<and>
   late_calls ! 15 = ''  sprintf(reply, "v%d", atoi(p));'' \<and>
   lookahead (take 15 late_calls) 0 = lookahead late_calls 0 \<and>
   lookahead late_calls 0 = (None, [])\<close>
proof -
  have a: "take 15 (drop 0 (take 15 late_calls)) = take 15 (drop 0 late_calls)"
    by simp
  have b: "lookahead late_calls 0 = (None, [])"
    by code_simp
  have c: \<open>late_calls ! 15 = ''  sprintf(reply, "v%d", atoi(p));''\<close>
    by code_simp
  from lookahead_bounded [of late_calls 0] a b c show ?thesis
    by simp
qed

lemma parse_commands_matches:
  "d \<in> set (parse_commands src) \<Longrightarrow> d \<in> set (command_matches (split_newline src))"
  using set_foldl_add_command [of "[]" "command_matches (split_newline src)"]
  by (auto simp: parse_commands_fold)

lemma parse_commands_descriptor_at:
  assumes "d \<in> set (parse_commands src)"
  shows "\<exists>i<length (split_newline src). \<exists>m ctx.
           re_search cmd_pattern (split_newline src ! i) = Some m \<and>
           descriptor_at (split_newline src) i = Some d \<and>
           d = build_command (split_newline src) i ctx m"
proof -
  from assms obtain i where i: "i < length (split_newline src)"
      and d: "descriptor_at (split_newline src) i = Some d"
    using command_matches_at parse_commands_matches by blast
  from d obtain m where m: "re_search cmd_pattern (split_newline src ! i) = Some m"
      and "d = build_command (split_newline src) i
                 (ctx_at_match (split_newline src ! i) (ctx_before (split_newline src) i)) m"
    by (auto simp: descriptor_at_def split: option.splits)
  with i d show ?thesis by blast
qed

section \<open>has_param\<close>

lemma build_command_has_param:
  "has_param (build_command lines i ctx m) =
     (CHR '' '' \<in> set (group_str m 2) \<or> params (build_command lines i ctx m) \<noteq> [])"
  by (simp add: build_command_def Let_def split: prod.splits)

text \<open>
  C3, as the code has it. Every descriptor returned by \<open>parse_commands\<close> was computed
  at a line where the command pattern matched, and its \<open>has_param\<close> holds exactly when
  the literal matched there contains a space anywhere, or \<open>params\<close> is not empty.
\<close>

theorem has_param_any_space:
  "\<forall>d\<in>set (parse_commands src). \<exists>i<length (split_newline src). \<exists>m.
      re_search cmd_pattern (split_newline src ! i) = Some m \<and>
      descriptor_at (split_newline src) i = Some d \<and>
      (has_param d \<longleftrightarrow> CHR '' '' \<in> set (group_str m 2) \<or> params d \<noteq> [])"
proof
  fix d
  assume "d \<in> set (parse_commands src)"
  then obtain i m ctx where "i < length (split_newline src)"
      and "re_search cmd_pattern (split_newline src ! i) = Some m"
      and "descriptor_at (split_newline src) i = Some d"
      and "d = build_command (split_newline src) i ctx m"
    using parse_commands_descriptor_at by blast
  then show "\<exists>i<length (split_newline src). \<exists>m.
      re_search cmd_pattern (split_newline src ! i) = Some m \<and>
      descriptor_at (split_newline src) i = Some d \<and>
      (has_param d \<longleftrightarrow> CHR '' '' \<in> set (group_str m 2) \<or> params d \<noteq> [])"
    using build_command_has_param by blast
qed

text \<open>The literal \<^verbatim>\<open>"time "\<close> with its trailing space.\<close>

theorem has_param_any_space_witness:
  \<open>parse_commands ''if (memcmp(command, "time ", 5) == 0) {'' =
     [\<lparr>name = ''time'', category = ''system'', params = [], response_format = None,
       description = ''Set time to epoch seconds'', serial_only = False, has_param = True\<rparr>] \<and>
   (\<exists>i<length (split_newline ''if (memcmp(command, "time ", 5) == 0) {''). \<exists>m.
      re_search cmd_pattern (split_newline ''if (memcmp(command, "time ", 5) == 0) {'' ! i) = Some m \<and>
      CHR '' '' \<in> set (group_str m 2))\<close>
proof -
  let ?d = "\<lparr>name = ''time'', category = ''system'', params = [], response_format = None,
       description = ''Set time to epoch seconds'', serial_only = False, has_param = True\<rparr>"
  have a: \<open>parse_commands ''if (memcmp(command, "time ", 5) == 0) {'' = [?d]\<close>
    by code_simp
  then have \<open>?d \<in> set (parse_commands ''if (memcmp(command, "time ", 5) == 0) {'')\<close>
    by simp
  with has_param_any_space [of \<open>''if (memcmp(command, "time ", 5) == 0) {''\<close>]
  obtain i m where \<open>i < length (split_newline ''if (memcmp(command, "time ", 5) == 0) {'')\<close>
      and \<open>re_search cmd_pattern (split_newline ''if (memcmp(command, "time ", 5) == 0) {'' ! i) = Some m\<close>
      and "has_param ?d \<longleftrightarrow> CHR '' '' \<in> set (group_str m 2) \<or> params ?d \<noteq> []"
    by blast
  then have \<open>\<exists>i<length (split_newline ''if (memcmp(command, "time ", 5) == 0) {''). \<exists>m.
      re_search cmd_pattern (split_newline ''if (memcmp(command, "time ", 5) == 0) {'' ! i) = Some m \<and>
      CHR '' '' \<in> set (group_str m 2)\<close>
    by auto
  with a show ?thesis by simp
qed

text \<open>
  The literal \<^verbatim>\<open>"clock sync"\<close> has a space inside and none at its end, and no
  parameter is inferred: \<open>has_param\<close> is true all the same.
\<close>

theorem has_param_trailing_space_counterexample:
  \<open>re_search cmd_pattern ''if (memcmp(command, "clock sync", 10) == 0) {'' =
     Some [(3, ''10''), (2, ''clock sync''), (1, ''command'')] \<and>
   parse_commands ''if (memcmp(command, "clock sync", 10) == 0) {'' =
     [\<lparr>name = ''clock sync'', category = ''system'', params = [], response_format = None,
       description = ''Sync clock from sender timestamp'', serial_only = False,
       has_param = True\<rparr>] \<and>
   last ''clock sync'' \<noteq> CHR '' ''\<close>
  by code_simp

section \<open>Parameters\<close>

lemma prefix_contains: "prefix sub s \<Longrightarrow> contains sub s"
  by (cases s) simp_all

lemma contains_Cons: "contains (x # sub) s \<Longrightarrow> contains sub s"
proof (induction s)
  case Nil
  then show ?case by simp
next
  case (Cons c cs)
  then show ?case
    by (auto simp: prefix_contains)
qed

lemma contains_append: "contains (pre @ sub) s \<Longrightarrow> contains sub s"
  by (induction pre) (auto dest: contains_Cons)

lemma line_params_cases:
  "line_params line =
     (if contains ''atof('' line then [value_param ''float'']
      else if contains ''atoi('' line then [value_param ''int'']
      else if contains ''strncpy('' line then [value_param ''string'']
      else [])"
proof -
  have "contains ''_atoi('' line \<Longrightarrow> contains ''atoi('' line"
    using contains_append [of "''_''" "''atoi(''" line] by simp
  moreover have "contains ''StrHelper::strncpy('' line \<Longrightarrow> contains ''strncpy('' line"
    using contains_append [of "''StrHelper::''" "''strncpy(''" line] by simp
  ultimately show ?thesis
    by (auto simp: line_params_def record_param_def)
qed

lemma record_param_line_params: "record_param line ps = ps @ line_params line"
  by (simp add: record_param_def line_params_def)

lemma snd_scan_context_line: "snd (scan_context_line line st) = snd st @ line_params line"
  by (simp add: scan_context_line_def record_param_line_params split: prod.splits)

lemma snd_scan_lines:
  "snd (foldl (\<lambda>st line. scan_context_line line st) st w) = snd st @ concat (map line_params w)"
proof (induction w arbitrary: st)
  case Nil
  show ?case by simp
next
  case (Cons l w)
  show ?case
    by (simp add: Cons snd_scan_context_line)
qed

text \<open>
  C4, as the code has it. The parameters of a descriptor are the entries of the window
  lines in line order, and a line gives at most one entry: \<open>float\<close> when it contains
  \<^verbatim>\<open>atof(\<close>, otherwise \<open>int\<close> when it contains \<^verbatim>\<open>atoi(\<close>, otherwise \<open>string\<close>
  when it contains \<^verbatim>\<open>strncpy(\<close>, otherwise none.
\<close>

theorem params_one_per_line:
  "params (build_command lines i ctx m) = concat (map line_params (take 15 (drop i lines))) \<and>
   line_params line =
     (if contains ''atof('' line then [value_param ''float'']
      else if contains ''atoi('' line then [value_param ''int'']
      else if contains ''strncpy('' line then [value_param ''string'']
      else [])"
  using line_params_cases [of line]
  by (simp add: build_command_lookahead lookahead_scan_window scan_window_def snd_scan_lines)

text \<open>A line with an \<^verbatim>\<open>atof\<close> call and an \<^verbatim>\<open>atoi\<close> call gives one entry, not two.\<close>

theorem two_calls_one_param_counterexample:
  \<open>contains ''atof('' ''if (memcmp(command, "pos ", 4) == 0) { lat = atof(a); n = atoi(b); }'' \<and>
   contains ''atoi('' ''if (memcmp(command, "pos ", 4) == 0) { lat = atof(a); n = atoi(b); }'' \<and>
   map params (parse_commands ''if (memcmp(command, "pos ", 4) == 0) { lat = atof(a); n = atoi(b); }'')
     = [[\<lparr>pname = ''value'', ptype = ''float''\<rparr>]]\<close>
  by code_simp

section \<open>Categories\<close>

lemma classify_command_label: "classify_command n \<in> set category_labels"
  by (simp add: classify_command_def category_labels_def)

lemma build_command_category: "category (build_command lines i ctx m) \<in> set category_labels"
proof -
  have "snd (full_command ctx v c) \<in> set category_labels" for v c
    using classify_command_label [of "strip c"]
    by (simp add: full_command_def) (simp add: category_labels_def)
  then show ?thesis
    by (simp add: build_command_def Let_def split: prod.splits) (metis snd_conv)
qed

text \<open>
  C6. The category of every descriptor returned by \<open>parse_commands\<close> is one of the
  twelve labels; \<open>classify_command\<close> gives one of them for every name, and \<open>other\<close>
  for a name that none of its rules matches.
\<close>

theorem category_closed:
  "(\<forall>d\<in>set (parse_commands src). category d \<in> set category_labels) \<and>
   classify_command n \<in> set category_labels \<and>
   (\<not> prefix ''get '' n \<and> \<not> prefix ''set '' n \<and> \<not> prefix ''log'' n \<and> \<not> prefix ''gps'' n \<and>
    \<not> prefix ''sensor'' n \<and> \<not> prefix ''bridge'' n \<and> \<not> prefix ''stats'' n \<and>
    n \<notin> set [''neighbors'', ''neighbor.remove''] \<and>
    n \<notin> set [''reboot'', ''advert'', ''clock'', ''clock sync'', ''time'', ''ver'', ''board'',
               ''erase'', ''start ota'', ''clear stats'', ''password''] \<and>
    n \<noteq> ''tempradio''
    \<longrightarrow> classify_command n = ''other'')"
proof -
  have "\<forall>d\<in>set (parse_commands src). category d \<in> set category_labels"
    using parse_commands_descriptor_at build_command_category by blast
  then show ?thesis
    using classify_command_label [of n] by (simp add: classify_command_def)
qed

text \<open>A command name that no rule matches.\<close>

theorem category_closed_witness:
  \<open>map category (parse_commands ''if (memcmp(command, "frobnicate", 10) == 0) {'') = [''other''] \<and>
   ''other'' \<in> set category_labels \<and>
   classify_command ''frobnicate'' = ''other''\<close>
proof -
  have a: \<open>map category (parse_commands ''if (memcmp(command, "frobnicate", 10) == 0) {'') = [''other'']\<close>
    by code_simp
  have b: "classify_command ''frobnicate'' = ''other''"
    using category_closed [of \<open>''if (memcmp(command, "frobnicate", 10) == 0) {''\<close> "''frobnicate''"]
    by simp
  have "classify_command ''frobnicate'' \<in> set category_labels"
    using category_closed [of \<open>''if (memcmp(command, "frobnicate", 10) == 0) {''\<close> "''frobnicate''"]
    by blast
  then have "''other'' \<in> set category_labels"
    unfolding b .
  with a b show ?thesis by simp
qed

section \<open>Reply formats\<close>

lemma rx_run_keys:
  "(s', g') \<in> set (rx_run r (s, g)) \<Longrightarrow> k \<in> fst ` set g \<Longrightarrow> k \<in> fst ` set g'"
proof (induction r "(s, g)" arbitrary: s g s' g' rule: rx_run.induct)
  case (5 p c cs g)
  then show ?case by (cases "p c") auto
next
  case (6 r s g)
  then show ?case by auto
next
  case (7 r1 r2)
  from 7(3) obtain s1 g1 where a: "(s1, g1) \<in> set (rx_run r1 (s, g))"
      and b: "(s', g') \<in> set (rx_run r2 (s1, g1))"
    by auto
  from 7(1) [OF a 7(4)] have "k \<in> fst ` set g1" .
  with 7(2) a b show ?case by blast
next
  case (8 r1 r2)
  then show ?case by auto
next
  case (9 n r s g)
  from 9(2) obtain g1 where a: "(s', g1) \<in> set (rx_run r (s, g))"
      and g': "g' = (n, take (length s - length s') s) # g1"
    by auto
  from 9(1) [OF a 9(3)] g' show ?case by simp
qed (auto split: if_splits)

lemma rx_run_binds:
  "(s', g') \<in> set (rx_run r (s, g)) \<Longrightarrow> binds n r \<Longrightarrow> n \<in> fst ` set g'"
proof (induction r "(s, g)" arbitrary: s g s' g' rule: rx_run.induct)
  case (7 r1 r2)
  from 7(3) obtain s1 g1 where a: "(s1, g1) \<in> set (rx_run r1 (s, g))"
      and b: "(s', g') \<in> set (rx_run r2 (s1, g1))"
    by auto
  show ?case
  proof (cases "binds n r1")
    case True
    with 7(1) a have "n \<in> fst ` set g1" by blast
    with rx_run_keys [OF b] show ?thesis by blast
  next
    case False
    with 7(4) have "binds n r2" by simp
    with 7(2) a b show ?thesis by blast
  qed
next
  case (8 r1 r2)
  then show ?case by auto
next
  case (9 k r s g)
  from 9(2) obtain g1 where a: "(s', g1) \<in> set (rx_run r (s, g))"
      and g': "g' = (k, take (length s - length s') s) # g1"
    by auto
  show ?case
  proof (cases "k = n")
    case True
    with g' show ?thesis by simp
  next
    case False
    with 9(3) have "binds n r" by simp
    from 9(1) [OF a this] g' show ?thesis by simp
  qed
qed auto

lemma re_match_binds:
  assumes "re_match r s = Some (k, g)" and "binds n r"
  shows "\<exists>t. group g n = Some t"
proof -
  from assms(1) obtain rest where "(rest, g) \<in> set (rx_run r (s, []))"
    by (auto simp: re_match_def split: list.splits)
  from rx_run_binds [OF this assms(2)] have "n \<in> fst ` set g" .
  then have "map_of g n \<noteq> None"
    by (simp add: map_of_eq_None_iff)
  then show ?thesis
    by (auto simp: group_def)
qed

lemma re_search_binds:
  "re_search r s = Some g \<Longrightarrow> binds n r \<Longrightarrow> \<exists>t. group g n = Some t"
proof (induction s)
  case Nil
  then show ?case
    by (cases "re_match r []") (auto dest: re_match_binds)
next
  case (Cons c cs)
  then show ?case
    by (cases "re_match r (c # cs)") (auto dest: re_match_binds)
qed

lemma binds_reply_pattern: "binds 1 reply_pattern"
  by (simp add: reply_pattern_def)

lemma binds_strcpy_pattern: "binds 1 strcpy_pattern"
  by (simp add: strcpy_pattern_def)

lemma record_reply_keep:
  assumes "binds 1 pat"
  shows "record_reply pat line fmt = foldl keep fmt (pattern_template pat line)"
proof (cases "re_search pat line")
  case None
  then show ?thesis
    by (simp add: record_reply_def pattern_template_def)
next
  case (Some m)
  with assms obtain t where "group m 1 = Some t"
    using re_search_binds by blast
  with Some show ?thesis
    by (simp add: record_reply_def pattern_template_def keep_def group_str_def)
qed

lemma fst_scan_context_line:
  "fst (scan_context_line line st) = foldl keep (fst st) (line_templates line)"
  by (simp add: scan_context_line_def line_templates_def
        record_reply_keep [OF binds_reply_pattern] record_reply_keep [OF binds_strcpy_pattern]
      split: prod.splits)

lemma fst_scan_lines:
  "fst (foldl (\<lambda>st line. scan_context_line line st) st w) =
     foldl keep (fst st) (concat (map line_templates w))"
proof (induction w arbitrary: st)
  case Nil
  show ?case by simp
next
  case (Cons l w)
  show ?case
    by (simp add: Cons fst_scan_context_line)
qed

lemma keep_falsy: "falsy fmt \<Longrightarrow> keep fmt t = Some t"
  by (simp add: keep_def)

lemma keep_found: "\<not> falsy fmt \<Longrightarrow> keep fmt t = fmt"
  by (simp add: keep_def)

lemma foldl_keep_found: "\<not> falsy fmt \<Longrightarrow> foldl keep fmt ts = fmt"
  by (induction ts) (simp_all add: keep_found)

lemma foldl_keep_first:
  "falsy fmt \<Longrightarrow>
   foldl keep fmt ts =
     (case filter (\<lambda>t. t \<noteq> []) ts of
        t # _ \<Rightarrow> Some t
      | [] \<Rightarrow> if ts = [] then fmt else Some [])"
proof (induction ts arbitrary: fmt)
  case Nil
  show ?case by simp
next
  case (Cons t ts)
  show ?case
  proof (cases "t = []")
    case True
    have "falsy (Some [])" by (simp add: falsy_def)
    from Cons.IH [OF this] True Cons.prems show ?thesis
      by (simp add: keep_falsy split: list.splits)
  next
    case False
    then have "\<not> falsy (Some t)" by (simp add: falsy_def)
    from foldl_keep_found [OF this] False Cons.prems show ?thesis
      by (simp add: keep_falsy)
  qed
qed

lemma fst_scan_window: "fst (scan_window w) = foldl keep None (concat (map line_templates w))"
  by (simp add: scan_window_def fst_scan_lines)

lemma fst_lookahead: "fst (lookahead lines i) = foldl keep None (window_templates lines i)"
  by (simp add: lookahead_scan_window fst_scan_window window_templates_def)

text \<open>
  C5, as the code has it. The template recorded by the lookahead is the first one that is
  not empty among the templates of the window, taken line by line and on each line the
  \<^verbatim>\<open>sprintf\<close> call before the \<^verbatim>\<open>strcpy\<close> call. When every template found is empty the
  empty template is recorded, and nothing when there is none. A template that is not empty,
  once recorded, stays whatever lines follow.
\<close>

theorem first_nonempty_reply:
  "fst (lookahead lines i) =
     (case filter (\<lambda>t. t \<noteq> []) (window_templates lines i) of
        t # _ \<Rightarrow> Some t
      | [] \<Rightarrow> if window_templates lines i = [] then None else Some []) \<and>
   (fst (scan_window w1) = Some t \<and> t \<noteq> [] \<longrightarrow> fst (scan_window (w1 @ w2)) = Some t)"
proof -
  have "falsy None" by (simp add: falsy_def)
  then have a: "fst (lookahead lines i) =
     (case filter (\<lambda>t. t \<noteq> []) (window_templates lines i) of
        t # _ \<Rightarrow> Some t
      | [] \<Rightarrow> if window_templates lines i = [] then None else Some [])"
    by (simp add: fst_lookahead foldl_keep_first)
  have b: "fst (scan_window (w1 @ w2)) = Some t" if "fst (scan_window w1) = Some t" and "t \<noteq> []"
  proof -
    from that have "\<not> falsy (foldl keep None (concat (map line_templates w1)))"
      by (simp add: fst_scan_window falsy_def)
    from foldl_keep_found [OF this] that(1) show ?thesis
      by (simp add: fst_scan_window)
  qed
  from a b show ?thesis by blast
qed

text \<open>A \<^verbatim>\<open>strcpy\<close> reply on one line, a \<^verbatim>\<open>sprintf\<close> reply on the next.\<close>

theorem first_nonempty_reply_witness:
  \<open>fst (scan_window [''strcpy(reply, "A");'']) = Some ''A'' \<and>
   fst (scan_window ([''strcpy(reply, "A");''] @ [''sprintf(reply, "B");''])) = Some ''A''\<close>
proof -
  have a: \<open>fst (scan_window [''strcpy(reply, "A");'']) = Some ''A''\<close>
    by code_simp
  with first_nonempty_reply [of "[]" 0 \<open>[''strcpy(reply, "A");'']\<close> "''A''" \<open>[''sprintf(reply, "B");'']\<close>]
  show ?thesis by simp
qed

text \<open>
  The first reply call of the window has the empty template, the second one \<^verbatim>\<open>"OK"\<close>:
  the lookahead records \<^verbatim>\<open>OK\<close>, the first match is overwritten.
\<close>

theorem reply_overwritten_counterexample:
  \<open>window_templates [''if (memcmp(command, "ver", 3) == 0) {'', ''  sprintf(reply, "");'',
                      ''  sprintf(reply, "OK");''] 0 = ['''', ''OK''] \<and>
   fst (lookahead [''if (memcmp(command, "ver", 3) == 0) {'', ''  sprintf(reply, "");'',
                   ''  sprintf(reply, "OK");''] 0) = Some ''OK''\<close>
  by code_simp

section \<open>Empty templates\<close>

lemma clean_response_format_None: "clean_response_format fmt = None \<longleftrightarrow> falsy fmt"
  by (simp add: clean_response_format_def falsy_def split: option.splits)

lemma foldl_keep_falsy: "falsy fmt \<Longrightarrow> falsy (foldl keep fmt ts) \<longleftrightarrow> (\<forall>t\<in>set ts. t = [])"
proof (induction ts arbitrary: fmt)
  case Nil
  then show ?case by simp
next
  case (Cons t ts)
  show ?case
  proof (cases "t = []")
    case True
    have "falsy (Some [])" by (simp add: falsy_def)
    from Cons.IH [OF this] True Cons.prems show ?thesis
      by (simp add: keep_falsy)
  next
    case False
    then have "\<not> falsy (Some t)" by (simp add: falsy_def)
    from foldl_keep_found [OF this] this False Cons.prems show ?thesis
      by (simp add: keep_falsy)
  qed
qed

lemma response_format_first_nonempty:
  "response_format (build_command lines i ctx m) =
     (case filter (\<lambda>t. t \<noteq> []) (window_templates lines i) of
        [] \<Rightarrow> None
      | t # _ \<Rightarrow> clean_response_format (Some t))"
proof -
  have "falsy None" by (simp add: falsy_def)
  then have "fst (lookahead lines i) =
     (case filter (\<lambda>t. t \<noteq> []) (window_templates lines i) of
        t # _ \<Rightarrow> Some t
      | [] \<Rightarrow> if window_templates lines i = [] then None else Some [])"
    by (simp add: fst_lookahead foldl_keep_first)
  then show ?thesis
    by (simp add: build_command_lookahead clean_response_format_def split: list.splits)
qed

text \<open>
  C10, as the code has it. \<open>clean_response_format\<close> gives \<^verbatim>\<open>None\<close> for \<^verbatim>\<open>None\<close>
  and for the empty string, and for nothing else. The templates the scan finds in a window
  are, line by line, that of the leftmost \<^verbatim>\<open>sprintf\<close> reply call of the line and that of
  its leftmost \<^verbatim>\<open>strcpy\<close> reply call. The \<open>response_format\<close> of the descriptor
  computed at a line is \<^verbatim>\<open>None\<close> exactly when all of these templates are empty, which
  includes the window where none is found; otherwise it is the first of them that is not
  empty, normalised.
\<close>

theorem empty_template_as_none:
  "clean_response_format None = None \<and> clean_response_format (Some []) = None \<and>
   (clean_response_format fmt = None \<longleftrightarrow> fmt = None \<or> fmt = Some []) \<and>
   (response_format (build_command lines i ctx m) = None
      \<longleftrightarrow> (\<forall>t\<in>set (window_templates lines i). t = [])) \<and>
   response_format (build_command lines i ctx m) =
     (case filter (\<lambda>t. t \<noteq> []) (window_templates lines i) of
        [] \<Rightarrow> None
      | t # _ \<Rightarrow> clean_response_format (Some t))"
proof -
  have "falsy None" by (simp add: falsy_def)
  then have "falsy (fst (lookahead lines i)) \<longleftrightarrow> (\<forall>t\<in>set (window_templates lines i). t = [])"
    by (simp add: fst_lookahead foldl_keep_falsy)
  then have "clean_response_format None = None \<and> clean_response_format (Some []) = None \<and>
   (clean_response_format fmt = None \<longleftrightarrow> fmt = None \<or> fmt = Some []) \<and>
   (response_format (build_command lines i ctx m) = None
      \<longleftrightarrow> (\<forall>t\<in>set (window_templates lines i). t = []))"
    using clean_response_format_None [of fmt]
    by (simp add: build_command_lookahead clean_response_format_None)
       (simp add: clean_response_format_def falsy_def)
  moreover note response_format_first_nonempty [of lines i ctx m]
  ultimately show ?thesis
    by (intro conjI) (elim conjE, assumption)+
qed

text \<open>
  One line with an empty \<^verbatim>\<open>sprintf\<close> reply followed by a second \<^verbatim>\<open>sprintf\<close> reply,
  which the scan does not find; and an empty \<^verbatim>\<open>strcpy\<close> reply with a \<^verbatim>\<open>sprintf\<close> reply
  on the next line.
\<close>

theorem empty_template_as_none_witness:
  \<open>window_templates [''if (memcmp(command, "ver", 3) == 0) { sprintf(reply, ""); sprintf(reply, "OK"); }''] 0
     = [''''] \<and>
   response_format
     (build_command [''if (memcmp(command, "ver", 3) == 0) { sprintf(reply, ""); sprintf(reply, "OK"); }''] 0
        initial_ctx [(3, ''3''), (2, ''ver''), (1, ''command'')]) = None \<and>
   window_templates [''if (memcmp(command, "ver", 3) == 0) {'', ''  strcpy(reply, "");'',
                      ''  sprintf(reply, "v%d", n);''] 0 = ['''', ''v%d''] \<and>
   response_format
     (build_command [''if (memcmp(command, "ver", 3) == 0) {'', ''  strcpy(reply, "");'',
                     ''  sprintf(reply, "v%d", n);''] 0
        initial_ctx [(3, ''3''), (2, ''ver''), (1, ''command'')]) = clean_response_format (Some ''v%d'')\<close>
proof -
  have a: \<open>window_templates [''if (memcmp(command, "ver", 3) == 0) { sprintf(reply, ""); sprintf(reply, "OK"); }''] 0
     = ['''']\<close>
    by code_simp
  have b: \<open>window_templates [''if (memcmp(command, "ver", 3) == 0) {'', ''  strcpy(reply, "");'',
                      ''  sprintf(reply, "v%d", n);''] 0 = ['''', ''v%d'']\<close>
    by code_simp
  from a empty_template_as_none [of None
      \<open>[''if (memcmp(command, "ver", 3) == 0) { sprintf(reply, ""); sprintf(reply, "OK"); }'']\<close> 0
      initial_ctx "[(3, ''3''), (2, ''ver''), (1, ''command'')]"]
  have c: \<open>response_format
     (build_command [''if (memcmp(command, "ver", 3) == 0) { sprintf(reply, ""); sprintf(reply, "OK"); }''] 0
        initial_ctx [(3, ''3''), (2, ''ver''), (1, ''command'')]) = None\<close>
    by simp
  from b empty_template_as_none [of None
      \<open>[''if (memcmp(command, "ver", 3) == 0) {'', ''  strcpy(reply, "");'',
         ''  sprintf(reply, "v%d", n);'']\<close> 0
      initial_ctx "[(3, ''3''), (2, ''ver''), (1, ''command'')]"]
  have d: \<open>response_format
     (build_command [''if (memcmp(command, "ver", 3) == 0) {'', ''  strcpy(reply, "");'',
                     ''  sprintf(reply, "v%d", n);''] 0
        initial_ctx [(3, ''3''), (2, ''ver''), (1, ''command'')]) = clean_response_format (Some ''v%d'')\<close>
    by simp
  from a b c d show ?thesis by simp
qed

text \<open>
  The first reply call has the empty template and a later one in the window does not:
  the descriptor's \<open>response_format\<close> is the later template, normalised.
\<close>

theorem empty_template_then_reply_counterexample:
  \<open>window_templates [''if (memcmp(command, "ver", 3) == 0) {'', ''  strcpy(reply, "");'',
                      ''  sprintf(reply, "v%d", n);''] 0 = ['''', ''v%d''] \<and>
   map response_format
     (parse_commands ''if (memcmp(command, "ver", 3) == 0) {\<newline>  strcpy(reply, "");\<newline>  sprintf(reply, "v%d", n);'')
     = [Some ''v{int}'']\<close>
  by code_simp

section \<open>Format normalisation\<close>

lemma re_sub_no_match: "re_search r s = None \<Longrightarrow> re_sub r repl s = s"
proof (induction s)
  case Nil
  then show ?case by (cases "re_match r []") simp_all
next
  case (Cons c cs)
  then show ?case by (cases "re_match r (c # cs)") auto
qed

lemma clean_spec_free:
  "spec_free s \<Longrightarrow> clean_response_format (Some s) = (if s = [] then None else Some s)"
  by (simp add: spec_free_def clean_response_format_def re_sub_no_match)

lemma lit_seq_no_match: "\<not> prefix l s \<Longrightarrow> re_match (Seq (Lit l) r) s = None"
  by (simp add: re_match_def)

lemma lit_no_match: "\<not> prefix l s \<Longrightarrow> re_match (Lit l) s = None"
  by (simp add: re_match_def)

lemma no_percent_search_seq:
  "CHR ''%'' \<notin> set s \<Longrightarrow> re_search (Seq (Lit (CHR ''%'' # l)) r) s = None"
  by (induction s) (simp_all add: lit_seq_no_match)

lemma no_percent_search_lit:
  "CHR ''%'' \<notin> set s \<Longrightarrow> re_search (Lit (CHR ''%'' # l)) s = None"
  by (induction s) (simp_all add: lit_no_match)

lemma no_percent_spec_free: "CHR ''%'' \<notin> set s \<Longrightarrow> spec_free s"
  by (simp add: spec_free_def int_spec_def str_spec_def uint_spec_def float_spec_def
        no_percent_search_seq no_percent_search_lit)

text \<open>
  C7, as the code has it. On a text in which none of the four specifier patterns occurs,
  \<open>clean_response_format\<close> returns the text unchanged when it is not empty and
  \<^verbatim>\<open>None\<close> when it is empty; in both cases a second application changes nothing.
\<close>

theorem clean_normalized_nonempty:
  "spec_free s \<longrightarrow>
     clean_response_format (Some s) = (if s = [] then None else Some s) \<and>
     clean_response_format (clean_response_format (Some s)) = clean_response_format (Some s)"
proof
  assume a: "spec_free s"
  show "clean_response_format (Some s) = (if s = [] then None else Some s) \<and>
     clean_response_format (clean_response_format (Some s)) = clean_response_format (Some s)"
  proof (cases "s = []")
    case True
    then show ?thesis by (simp add: clean_response_format_def)
  next
    case False
    with clean_spec_free [OF a] show ?thesis by simp
  qed
qed

text \<open>A text of placeholders only.\<close>

theorem clean_normalized_nonempty_witness:
  "spec_free ''{int} dBm, {str}/{uint} at {float}'' \<and>
   clean_response_format (Some ''{int} dBm, {str}/{uint} at {float}'')
     = Some ''{int} dBm, {str}/{uint} at {float}''"
proof -
  have "CHR ''%'' \<notin> set ''{int} dBm, {str}/{uint} at {float}''"
    by simp
  then have a: "spec_free ''{int} dBm, {str}/{uint} at {float}''"
    by (rule no_percent_spec_free)
  with clean_normalized_nonempty [of "''{int} dBm, {str}/{uint} at {float}''"]
  show ?thesis by simp
qed

text \<open>The empty text has no specifier and is not returned unchanged.\<close>

theorem clean_empty_counterexample:
  "spec_free [] \<and> clean_response_format (Some []) = None \<and>
   clean_response_format (Some []) \<noteq> Some []"
  by code_simp

text \<open>
  A percent sign in front of the placeholder \<^verbatim>\<open>{float}\<close> is an occurrence of the fourth
  pattern: the dot takes the brace.
\<close>

lemma clean_percent_before_placeholder:
  "clean_response_format (Some ''load 5%{float}'') = Some ''load 5{float}loat}''"
  by code_simp

section \<open>The struct parser\<close>

lemma no_struct_no_match:
  "l \<noteq> [] \<Longrightarrow> \<not> contains l s \<Longrightarrow> re_search (Seq (Lit l) r) s = None"
  by (induction s) (simp_all add: lit_seq_no_match)

text \<open>
  C9. When the struct pattern finds no match in the header text,
  \<open>parse_prefs_struct\<close> returns the empty mapping; this is so in every text that does
  not contain \<^verbatim>\<open>struct NodePrefs\<close>.
\<close>

theorem prefs_empty_when_not_found:
  "(re_search struct_pattern header_source = None \<longrightarrow>
      parse_prefs_struct header_source = Map.empty) \<and>
   (\<not> contains ''struct NodePrefs'' header_source \<longrightarrow>
      parse_prefs_struct header_source = Map.empty)"
proof -
  have a: "parse_prefs_struct header_source = Map.empty"
    if "re_search struct_pattern header_source = None"
    using that by (simp add: parse_prefs_struct_def)
  have "re_search struct_pattern header_source = None"
    if "\<not> contains ''struct NodePrefs'' header_source"
    using that by (simp add: struct_pattern_def no_struct_no_match)
  with a show ?thesis by auto
qed

text \<open>
  A header that names the struct without declaring it, and one that declares another struct.
\<close>

theorem prefs_empty_when_not_found_witness:
  "re_search struct_pattern ''struct NodePrefs;  struct Prefs { float airtime_factor; };'' = None \<and>
   parse_prefs_struct ''struct NodePrefs;  struct Prefs { float airtime_factor; };'' = Map.empty \<and>
   parse_prefs_struct ''struct Prefs { char node_name[32]; };'' = Map.empty"
proof -
  have a: "re_search struct_pattern ''struct NodePrefs;  struct Prefs { float airtime_factor; };'' = None"
    by code_simp
  have b: "\<not> contains ''struct NodePrefs'' ''struct Prefs { char node_name[32]; };''"
    by code_simp
  from a prefs_empty_when_not_found [of "''struct NodePrefs;  struct Prefs { float airtime_factor; };''"]
  have c: "parse_prefs_struct ''struct NodePrefs;  struct Prefs { float airtime_factor; };'' = Map.empty"
    by simp
  from b prefs_empty_when_not_found [of "''struct Prefs { char node_name[32]; };''"]
  have "parse_prefs_struct ''struct Prefs { char node_name[32]; };'' = Map.empty"
    by simp
  with a c show ?thesis by simp
qed

section \<open>Substring search\<close>

lemma contains_iff: "contains sub s \<longleftrightarrow> (\<exists>u v. s = u @ sub @ v)"
proof (induction s)
  case Nil
  show ?case by auto
next
  case (Cons c cs)
  have "(\<exists>u v. c # cs = u @ sub @ v) \<longleftrightarrow> prefix sub (c # cs) \<or> (\<exists>u v. cs = u @ sub @ v)"
  proof
    assume "\<exists>u v. c # cs = u @ sub @ v"
    then obtain u v where uv: "c # cs = u @ sub @ v" by blast
    show "prefix sub (c # cs) \<or> (\<exists>u v. cs = u @ sub @ v)"
    proof (cases u)
      case Nil
      with uv show ?thesis by (auto simp: prefix_def)
    next
      case (Cons a u')
      with uv show ?thesis by auto
    qed
  next
    assume "prefix sub (c # cs) \<or> (\<exists>u v. cs = u @ sub @ v)"
    then show "\<exists>u v. c # cs = u @ sub @ v"
    proof
      assume "prefix sub (c # cs)"
      then obtain v where "c # cs = sub @ v" by (auto simp: prefix_def)
      then have "c # cs = [] @ sub @ v" by simp
      then show ?thesis by blast
    next
      assume "\<exists>u v. cs = u @ sub @ v"
      then obtain u v where "cs = u @ sub @ v" by blast
      then have "c # cs = (c # u) @ sub @ v" by simp
      then show ?thesis by blast
    qed
  qed
  with Cons show ?case by simp
qed

lemma contains_appI1: "contains sub xs \<Longrightarrow> contains sub (xs @ ys)"
proof -
  assume "contains sub xs"
  then obtain u v where "xs = u @ sub @ v" by (auto simp: contains_iff)
  then have "xs @ ys = u @ sub @ (v @ ys)" by simp
  then show ?thesis unfolding contains_iff by blast
qed

lemma contains_appI2: "contains sub ys \<Longrightarrow> contains sub (xs @ ys)"
proof -
  assume "contains sub ys"
  then obtain u v where "ys = u @ sub @ v" by (auto simp: contains_iff)
  then have "xs @ ys = (xs @ u) @ sub @ v" by simp
  then show ?thesis unfolding contains_iff by blast
qed

lemma contains_trans: "contains a b \<Longrightarrow> contains b s \<Longrightarrow> contains a s"
proof -
  assume "contains a b" and "contains b s"
  then obtain u v u' v' where "b = u @ a @ v" and "s = u' @ b @ v'"
    by (auto simp: contains_iff)
  then have "s = (u' @ u) @ a @ (v @ v')" by simp
  then show ?thesis unfolding contains_iff by blast
qed

lemma contains_first: "prefix k a \<Longrightarrow> contains (a @ b) s \<Longrightarrow> contains k s"
proof -
  assume "prefix k a" and "contains (a @ b) s"
  then obtain w u v where "a = k @ w" and "s = u @ (a @ b) @ v"
    by (auto simp: contains_iff prefix_def)
  then have "s = u @ k @ (w @ b @ v)" by simp
  then show ?thesis unfolding contains_iff by blast
qed

text \<open>A text without a newline occurs on one side of a newline or on the other.\<close>

lemma contains_newline:
  assumes "CHR 0x0A \<notin> set sub" and "sub \<noteq> []"
  shows "contains sub (xs @ CHR 0x0A # ys) \<longleftrightarrow> contains sub xs \<or> contains sub ys"
proof
  assume "contains sub (xs @ CHR 0x0A # ys)"
  then obtain u v where uv: "xs @ CHR 0x0A # ys = u @ sub @ v"
    by (auto simp: contains_iff)
  then consider w where "xs = u @ w" and "w @ CHR 0x0A # ys = sub @ v"
    | w where "xs @ w = u" and "CHR 0x0A # ys = w @ sub @ v"
    by (auto simp: append_eq_append_conv2)
  then show "contains sub xs \<or> contains sub ys"
  proof cases
    case 1
    from 1(2) consider w2 where "w = sub @ w2"
      | w2 where "w @ w2 = sub" and "CHR 0x0A # ys = w2 @ v"
      by (auto simp: append_eq_append_conv2)
    then show ?thesis
    proof cases
      case 1
      with \<open>xs = u @ w\<close> have "xs = u @ sub @ w2" by simp
      then show ?thesis unfolding contains_iff by blast
    next
      case 2
      show ?thesis
      proof (cases w2)
        case Nil
        with 2 \<open>xs = u @ w\<close> have "xs = u @ sub @ []" by simp
        then show ?thesis unfolding contains_iff by blast
      next
        case (Cons a w2')
        with 2 have "CHR 0x0A \<in> set sub" by auto
        with assms show ?thesis by simp
      qed
    qed
  next
    case 2
    show ?thesis
    proof (cases w)
      case Nil
      with 2 assms show ?thesis by (cases sub) auto
    next
      case (Cons a w')
      with 2 have "ys = w' @ sub @ v" by simp
      then show ?thesis unfolding contains_iff by blast
    qed
  qed
next
  assume "contains sub xs \<or> contains sub ys"
  then show "contains sub (xs @ CHR 0x0A # ys)"
  proof
    assume "contains sub xs"
    then show ?thesis by (rule contains_appI1)
  next
    assume "contains sub ys"
    then have "contains sub ((xs @ [CHR 0x0A]) @ ys)" by (rule contains_appI2)
    then show ?thesis by simp
  qed
qed

lemma contains_line:
  assumes "CHR 0x0A \<notin> set sub" and "sub \<noteq> []" and "l \<noteq> []" and "last l = CHR 0x0A"
  shows "contains sub (l @ rest) \<longleftrightarrow> contains sub l \<or> contains sub rest"
proof -
  from assms(3,4) have l: "l = butlast l @ [CHR 0x0A]"
    by (metis append_butlast_last_id)
  have "contains sub (l @ rest) \<longleftrightarrow> contains sub (butlast l @ CHR 0x0A # rest)"
    by (subst l) simp
  also have "\<dots> \<longleftrightarrow> contains sub (butlast l) \<or> contains sub rest"
    by (rule contains_newline [OF assms(1,2)])
  also have "contains sub (butlast l) \<longleftrightarrow> contains sub l"
    using contains_newline [OF assms(1,2), of "butlast l" "[]"] assms(2) l by simp
  finally show ?thesis .
qed

lemma contains_concat_lines:
  assumes "CHR 0x0A \<notin> set sub" and "sub \<noteq> []"
    and "list_all (\<lambda>l. l \<noteq> [] \<and> last l = CHR 0x0A) ls"
  shows "contains sub (concat ls @ rest) \<longleftrightarrow> list_ex (contains sub) ls \<or> contains sub rest"
  using assms(3)
proof (induction ls)
  case Nil
  show ?case by simp
next
  case (Cons l ls)
  then have "contains sub (l @ concat ls @ rest) \<longleftrightarrow> contains sub l \<or> contains sub (concat ls @ rest)"
    using contains_line [OF assms(1,2), of l "concat ls @ rest"] by simp
  with Cons show ?case by simp
qed

lemma contains_concatI: "list_ex (contains sub) ls \<Longrightarrow> contains sub (concat ls)"
  by (induction ls) (auto intro: contains_appI1 contains_appI2)

lemma contains_drop: "contains sub (drop n s) \<Longrightarrow> contains sub s"
  using contains_appI2 [of sub "drop n s" "take n s"] by simp

section \<open>Replacing a line ending\<close>

text \<open>
  The text replaced ends in its only newline and the replacement starts with it: the
  replacement adds text after some newlines, and every line stays as it is.
\<close>

lemma takeWhile_replace:
  "old = ln @ [CHR 0x0A] \<Longrightarrow> CHR 0x0A \<notin> set ln \<Longrightarrow> new = old @ e \<Longrightarrow>
   takeWhile (\<lambda>c. c \<noteq> CHR 0x0A) (replace old new s) = takeWhile (\<lambda>c. c \<noteq> CHR 0x0A) s"
proof (induction old new s rule: replace.induct)
  case (1 old new)
  then show ?case by simp
next
  case (2 old new c cs)
  show ?case
  proof (cases "prefix old (c # cs)")
    case True
    then obtain v where v: "c # cs = ln @ CHR 0x0A # v"
      using 2(4) by (auto simp: prefix_def)
    have "takeWhile (\<lambda>c. c \<noteq> CHR 0x0A) (ln @ CHR 0x0A # t) = ln" for t
      by (subst takeWhile_append2) (use 2(5) in auto)
    note tw = this
    have "replace old new (c # cs) = new @ replace old new (drop (length old - 1) cs)"
      using True 2(4) by simp
    also have "\<dots> = ln @ CHR 0x0A # (e @ replace old new (drop (length old - 1) cs))"
      using 2(4,6) by simp
    finally have "takeWhile (\<lambda>c. c \<noteq> CHR 0x0A) (replace old new (c # cs)) = ln"
      by (simp only: tw)
    moreover have "takeWhile (\<lambda>c. c \<noteq> CHR 0x0A) (c # cs) = ln"
      by (simp only: v tw)
    ultimately show ?thesis by simp
  next
    case False
    with 2 show ?thesis by simp
  qed
qed

lemma prefix_takeWhile:
  "CHR 0x0A \<notin> set k \<Longrightarrow> prefix k x \<longleftrightarrow> prefix k (takeWhile (\<lambda>c. c \<noteq> CHR 0x0A) x)"
proof (induction k arbitrary: x)
  case Nil
  show ?case by simp
next
  case (Cons a k)
  then show ?case by (cases x) auto
qed

lemma prefix_replace:
  assumes "old = ln @ [CHR 0x0A]" and "CHR 0x0A \<notin> set ln" and "new = old @ e"
    and "CHR 0x0A \<notin> set k"
  shows "prefix k (replace old new s) \<longleftrightarrow> prefix k s"
  using prefix_takeWhile [OF assms(4), of "replace old new s"] prefix_takeWhile [OF assms(4), of s]
    takeWhile_replace [OF assms(1,2,3), of s]
  by simp

lemma contains_replace_sub:
  "old = ln @ [CHR 0x0A] \<Longrightarrow> CHR 0x0A \<notin> set ln \<Longrightarrow> new = old @ e @ [CHR 0x0A] \<Longrightarrow>
   CHR 0x0A \<notin> set k \<Longrightarrow> k \<noteq> [] \<Longrightarrow>
   contains k (replace old new s) \<Longrightarrow> contains k s \<or> contains k new"
proof (induction old new s rule: replace.induct)
  case (1 old new)
  then show ?case by simp
next
  case (2 old new c cs)
  show ?case
  proof (cases "prefix old (c # cs)")
    case True
    let ?r = "replace old new (drop (length old - 1) cs)"
    from True 2(4) 2(9) have "contains k (new @ ?r)" by simp
    moreover have "new \<noteq> []" and "last new = CHR 0x0A"
      using 2(6) by simp_all
    ultimately have "contains k new \<or> contains k ?r"
      using contains_line [OF 2(7) 2(8), of new ?r] by simp
    then show ?thesis
    proof
      assume "contains k new"
      then show ?thesis ..
    next
      assume "contains k ?r"
      with 2(2) [OF _ True 2(4) 2(5) 2(6) 2(7) 2(8)] 2(4)
      have "contains k (drop (length old - 1) cs) \<or> contains k new" by simp
      then show ?thesis
        by (auto dest: contains_drop)
    qed
  next
    case False
    with 2(4) 2(9) have "prefix k (c # replace old new cs) \<or> contains k (replace old new cs)"
      by simp
    then show ?thesis
    proof
      assume "prefix k (c # replace old new cs)"
      with False 2(4) have "prefix k (replace old new (c # cs))" by simp
      then have "prefix k (c # cs)"
        using prefix_replace [OF 2(4) 2(5) _ 2(7), of new "e @ [CHR 0x0A]" "c # cs"] 2(6) by simp
      then show ?thesis by (simp add: prefix_contains)
    next
      assume "contains k (replace old new cs)"
      with 2(3) [OF _ False 2(4) 2(5) 2(6) 2(7) 2(8)] 2(4)
      show ?thesis by auto
    qed
  qed
qed

lemma contains_replace_pre:
  "old = ln @ [CHR 0x0A] \<Longrightarrow> CHR 0x0A \<notin> set ln \<Longrightarrow> new = old @ e \<Longrightarrow>
   CHR 0x0A \<notin> set k \<Longrightarrow> k \<noteq> [] \<Longrightarrow>
   contains k s \<Longrightarrow> contains k (replace old new s)"
proof (induction old new s rule: replace.induct)
  case (1 old new)
  then show ?case by simp
next
  case (2 old new c cs)
  show ?case
  proof (cases "prefix old (c # cs)")
    case True
    let ?r = "replace old new (drop (length old - 1) cs)"
    from True obtain v where v: "c # cs = old @ v" by (auto simp: prefix_def)
    have "old \<noteq> []" using 2(4) by simp
    with v have "cs = tl old @ v" by (cases old) auto
    then have dv: "drop (length old - 1) cs = v" by simp
    from v 2(4) have "c # cs = ln @ CHR 0x0A # v" by simp
    with 2(9) contains_newline [OF 2(7) 2(8), of ln v]
    have "contains k ln \<or> contains k v" by simp
    then have "contains k (new @ ?r)"
    proof
      assume "contains k ln"
      then have "contains k new"
        using 2(4) 2(6) by (auto intro: contains_appI1)
      then show ?thesis by (rule contains_appI1)
    next
      assume "contains k v"
      with 2(2) [OF _ True 2(4) 2(5) 2(6) 2(7) 2(8)] 2(4) dv
      have "contains k ?r" by simp
      then show ?thesis by (rule contains_appI2)
    qed
    with True 2(4) show ?thesis by simp
  next
    case False
    from 2(9) have "prefix k (c # cs) \<or> contains k cs" by simp
    then show ?thesis
    proof
      assume "prefix k (c # cs)"
      then have "prefix k (replace old new (c # cs))"
        using prefix_replace [OF 2(4) 2(5) 2(6) 2(7), of "c # cs"] by simp
      then show ?thesis by (rule prefix_contains)
    next
      assume "contains k cs"
      with 2(3) [OF _ False 2(4) 2(5) 2(6) 2(7) 2(8)] 2(4)
      have "contains k (replace old new cs)" by simp
      with False 2(4) show ?thesis by simp
    qed
  qed
qed

lemma contains_replace_new:
  "old \<noteq> [] \<Longrightarrow> contains old s \<Longrightarrow> contains new (replace old new s)"
proof (induction old new s rule: replace.induct)
  case (1 old new)
  then show ?case by simp
next
  case (2 old new c cs)
  show ?case
  proof (cases "prefix old (c # cs)")
    case True
    have "contains new (new @ replace old new (drop (length old - 1) cs))"
      by (rule contains_appI1) (simp add: prefix_contains)
    with True 2(4) show ?thesis by simp
  next
    case False
    with 2(5) have "contains old cs" by simp
    with 2(3) [OF 2(4) False 2(4)] have "contains new (replace old new cs)" by simp
    with False 2(4) show ?thesis by simp
  qed
qed

section \<open>The first occurrence\<close>

lemma prefix_short_tail:
  assumes "prefix sub (x @ r)" and "x \<noteq> []"
  shows "prefix sub (x @ take (length sub - 1) r)"
proof -
  from assms(1) have "sub = take (length sub) (x @ r)"
    by (metis prefix_def append_eq_conv_conj)
  also have "\<dots> = take (length sub) (x @ take (length sub - 1) r)"
  proof (cases x)
    case Nil
    with assms(2) show ?thesis by simp
  next
    case (Cons a y)
    show ?thesis
    proof (cases "length sub")
      case 0
      then show ?thesis by simp
    next
      case (Suc m)
      have "take m (y @ take m r) = take m (y @ r)"
        by (simp add: min_def)
      with Suc Cons show ?thesis by simp
    qed
  qed
  finally have "sub = take (length sub) (x @ take (length sub - 1) r)" .
  then show ?thesis
    by (metis take_is_prefix)
qed

lemma find_index_at:
  "prefix sub r \<Longrightarrow> \<not> contains sub (i @ take (length sub - 1) r) \<Longrightarrow>
   find_index sub (i @ r) = Some (length i)"
proof (induction i)
  case Nil
  then show ?case by (cases r) simp_all
next
  case (Cons c i)
  from Cons.prems(2) have a: "\<not> prefix sub ((c # i) @ take (length sub - 1) r)"
      and b: "\<not> contains sub (i @ take (length sub - 1) r)"
    by simp_all
  from a have "\<not> prefix sub ((c # i) @ r)"
    using prefix_short_tail [of sub "c # i" r] by blast
  with Cons.IH [OF Cons.prems(1) b] show ?case by simp
qed

section \<open>The patches one by one\<close>

lemma patch_replace_absent:
  "\<not> contains old (content st) \<Longrightarrow> patch_replace old new patch st = st"
  by (simp add: patch_replace_def)

lemma patch_board_routing_absent:
  "\<not> contains old_ver_routing (content st) \<Longrightarrow> patch_board_routing st = st"
  by (simp add: patch_board_routing_def patch_replace_absent)

lemma patch_stats_methods_present:
  "contains ''def _cmd_stats_packets'' (content st) \<Longrightarrow> patch_stats_methods st = st"
  by (simp add: patch_stats_methods_def)

lemma init_pattern_absent:
  "\<not> contains ''self.repeater_config = config.get('repeater', {})'' s \<Longrightarrow>
   re_search init_pattern s = None"
proof (induction s)
  case Nil
  then show ?case by (simp add: init_pattern_def re_match_def)
next
  case (Cons c cs)
  then show ?case by (simp add: init_pattern_def re_match_def)
qed

lemma patch_tempradio_state_content:
  "\<not> contains ''self.repeater_config = config.get('repeater', {})'' (content st) \<Longrightarrow>
   content (patch_tempradio_state st) = content st"
  by (simp add: patch_tempradio_state_def applied_def init_pattern_absent re_sub_no_match)

lemma patch_imports_fires:
  assumes "\<not> contains ''import subprocess'' (i @ r)"
    and "find_index ''\<newline>logger = '' (i @ r) = Some (length i)" and "i \<noteq> []"
  shows "content (patch_imports \<lparr>content = i @ r, patches_applied = pa\<rparr>) =
           replace ''import time\<newline>''
             ''import time\<newline>import subprocess  # pymc_console: for systemctl commands\<newline>'' i @ r"
proof -
  from assms(1) have "\<not> contains ''import subprocess'' i"
    by (auto dest: contains_appI1)
  with assms show ?thesis
    by (simp add: patch_imports_def str_find_def applied_def Let_def)
qed

text \<open>An old block occurs only where its first line does.\<close>

lemma old_reboot_first: "contains old_reboot s \<Longrightarrow> contains ''def _cmd_reboot(self) -> str:'' s"
  unfolding old_reboot_def concat.simps by (erule contains_first [rotated]) simp

lemma old_clear_stats_first:
  "contains old_clear_stats s \<Longrightarrow> contains ''def _cmd_clear_stats(self) -> str:'' s"
  unfolding old_clear_stats_def concat.simps by (erule contains_first [rotated]) simp

lemma old_neighbor_remove_first:
  "contains old_neighbor_remove s \<Longrightarrow> contains ''def _cmd_neighbor_remove(self, command: str) -> str:'' s"
  unfolding old_neighbor_remove_def concat.simps by (erule contains_first [rotated]) simp

lemma old_tempradio_first:
  "contains old_tempradio s \<Longrightarrow> contains ''def _cmd_tempradio(self, command: str) -> str:'' s"
  unfolding old_tempradio_def concat.simps by (erule contains_first [rotated]) simp

lemma old_stats_routing_first:
  "contains old_stats_routing s \<Longrightarrow> contains ''# Statistics commands'' s"
  unfolding old_stats_routing_def concat.simps by (erule contains_first [rotated]) simp

lemma old_ver_routing_first:
  \<open>contains old_ver_routing s \<Longrightarrow> contains ''elif command == "ver":'' s\<close>
  unfolding old_ver_routing_def concat.simps by (erule contains_first [rotated]) simp

text \<open>Patches 2 to 8 leave such a text as it is.\<close>

lemma middle_patches_content:
  assumes "no_old_block (content st)"
  shows "content
     (patch_board_routing
        (patch_replace old_stats_routing new_stats_routing ''stats_routing''
          (patch_replace old_tempradio new_tempradio ''tempradio''
            (patch_replace old_neighbor_remove new_neighbor_remove ''neighbor_remove''
              (patch_replace old_clear_stats new_clear_stats ''clear_stats''
                (patch_replace old_reboot new_reboot ''reboot''
                  (patch_tempradio_state st))))))) = content st"
proof -
  let ?s = "patch_tempradio_state st"
  from assms have c: "content ?s = content st"
    by (simp add: no_old_block_def patch_tempradio_state_content)
  from assms have "\<not> contains old_reboot (content ?s)"
    "\<not> contains old_clear_stats (content ?s)"
    "\<not> contains old_neighbor_remove (content ?s)"
    "\<not> contains old_tempradio (content ?s)"
    "\<not> contains old_stats_routing (content ?s)"
    "\<not> contains old_ver_routing (content ?s)"
    unfolding c no_old_block_def
    using old_reboot_first old_clear_stats_first old_neighbor_remove_first old_tempradio_first
      old_stats_routing_first old_ver_routing_first
    by blast+
  then show ?thesis
    by (simp add: patch_replace_absent patch_board_routing_absent c)
qed

section \<open>Running the patches twice\<close>

lemma absent_lines:
  assumes "CHR 0x0A \<notin> set k" and "k \<noteq> []" and "\<not> contains k p"
    and "list_all line_ok ls" and "list_all (\<lambda>l. \<not> contains k l) ls" and "\<not> contains k t"
  shows "\<not> contains k (p @ concat ([CHR 0x0A] # ls) @ t)"
proof -
  from assms(4) have ok: "list_all (\<lambda>l. l \<noteq> [] \<and> last l = CHR 0x0A) ls"
    by (simp add: line_ok_def [abs_def])
  from assms(5) have "\<not> list_ex (contains k) ls"
    by (simp add: list_all_iff list_ex_iff)
  with assms(6) have "\<not> contains k (concat ls @ t)"
    by (simp add: contains_concat_lines [OF assms(1,2) ok])
  with assms(3) have "\<not> contains k (p @ CHR 0x0A # concat ls @ t)"
    by (simp add: contains_newline [OF assms(1,2)])
  then show ?thesis by simp
qed

lemma patch_stats_methods_content:
  "content (patch_stats_methods st) =
     content (patch_stats_methods \<lparr>content = content st, patches_applied = []\<rparr>)"
  by (simp add: patch_stats_methods_def Let_def applied_def)

lemma apply_patches_content:
  assumes "no_old_block (content (patch_imports \<lparr>content = original, patches_applied = []\<rparr>))"
  shows "content (apply_patches original) =
     content (patch_stats_methods
       \<lparr>content = content (patch_imports \<lparr>content = original, patches_applied = []\<rparr>),
        patches_applied = []\<rparr>)"
  unfolding apply_patches_def
  by (subst patch_stats_methods_content) (simp only: middle_patches_content [OF assms])

text \<open>The first run on the module: the statistics methods are added after the log method.\<close>

lemma first_imports:
  "content (patch_imports \<lparr>content = late_logger_file, patches_applied = []\<rparr>) = late_logger_file"
  by (simp add: patch_imports_def late_logger_file_def str_find_def Let_def applied_def)

lemma first_no_old_block: "no_old_block late_logger_file"
  by (simp add: no_old_block_def late_logger_file_def)

lemma first_stats_methods:
  \<open>content (patch_stats_methods \<lparr>content = late_logger_file, patches_applied = []\<rparr>) =
     ''import logging\<newline>\<newline>class MeshCLI:\<newline>    def _cmd_log(self, command):\<newline>        return "Unknown log command"''
     @ stats_methods @ ''\<newline>\<newline>logger = logging.getLogger("mesh_cli")\<newline>''\<close>
  by (simp add: patch_stats_methods_def late_logger_file_def str_rfind_def str_find_from_def
        Let_def applied_def)

lemma first_run:
  \<open>patch_content late_logger_file =
     ''import logging\<newline>\<newline>class MeshCLI:\<newline>    def _cmd_log(self, command):\<newline>        return "Unknown log command"''
     @ stats_methods @ ''\<newline>\<newline>logger = logging.getLogger("mesh_cli")\<newline>''\<close>
  using apply_patches_content [of late_logger_file] first_no_old_block
  by (simp add: patch_content_def first_imports first_stats_methods)

lemma no_old_block_lines:
  assumes "no_old_block p" and "list_all line_ok ls" and "list_all no_old_block ls"
    and "no_old_block t"
  shows "no_old_block (p @ concat ([CHR 0x0A] # ls) @ t)"
proof -
  have "\<not> contains k (p @ concat ([CHR 0x0A] # ls) @ t)"
    if "CHR 0x0A \<notin> set k" and "k \<noteq> []" and "\<not> contains k p"
      and "list_all (\<lambda>l. \<not> contains k l) ls" and "\<not> contains k t" for k
    using that assms(2) by (intro absent_lines)
  moreover have "list_all (\<lambda>l. \<not> contains k l) ls"
    if "\<And>l. no_old_block l \<Longrightarrow> \<not> contains k l" for k
    using assms(3) that by (simp add: list_all_iff)
  ultimately show ?thesis
    using assms(1,4) unfolding no_old_block_def
    by (intro conjI) (simp_all add: no_old_block_def)
qed

lemma absent_after_import:
  assumes "CHR 0x0A \<notin> set k" and "k \<noteq> []" and "\<not> contains k i"
    and "\<not> contains k ''import time\<newline>import subprocess  # pymc_console: for systemctl commands\<newline>''"
    and "\<not> contains k r"
  shows "\<not> contains k
     (replace ''import time\<newline>''
        ''import time\<newline>import subprocess  # pymc_console: for systemctl commands\<newline>'' i
      @ CHR 0x0A # r)"
proof -
  have "contains k i \<or>
        contains k ''import time\<newline>import subprocess  # pymc_console: for systemctl commands\<newline>''"
    if "contains k (replace ''import time\<newline>''
        ''import time\<newline>import subprocess  # pymc_console: for systemctl commands\<newline>'' i)"
    using that
    by (rule contains_replace_sub [where ln = "''import time''"
          and e = "''import subprocess  # pymc_console: for systemctl commands''", rotated 5])
       (use assms(1,2) in simp_all)
  with assms(3,4,5) show ?thesis
    by (auto simp: contains_newline [OF assms(1,2)])
qed

lemma no_old_block_after_import:
  assumes "no_old_block i" and "no_old_block r"
  shows "no_old_block
     (replace ''import time\<newline>''
        ''import time\<newline>import subprocess  # pymc_console: for systemctl commands\<newline>'' i
      @ CHR 0x0A # r)"
  using assms unfolding no_old_block_def
  by (intro conjI absent_after_import) simp_all

text \<open>The lines of the statistics methods, looked at one by one.\<close>

lemmas scan_rules = list_all_Nil_iff list_all_Cons_iff list_ex_Nil_iff list_ex_Cons_iff
  contains.simps Cons_prefix_Cons Nil_prefix prefix_Nil char.inject simp_thms list.simps
  append.simps last.simps if_True if_False line_ok_def no_old_block_def

lemma stats_methods_scan:
  "\<exists>ls. stats_methods = concat ([CHR 0x0A] # ls) \<and> list_all line_ok ls \<and>
        list_all no_old_block ls \<and>
        list_all (\<lambda>l. \<not> contains ''import subprocess'' l) ls \<and>
        list_all (\<lambda>l. \<not> contains ''logger = '' l) ls \<and>
        list_ex (contains ''import time\<newline>'') ls \<and>
        list_ex (contains ''def _cmd_stats_packets'') ls"
  unfolding stats_methods_def
  by (rule exI, intro conjI, rule refl) (simp_all only: scan_rules)

text \<open>
  The second run. The text is the result of the first run: the module up to the end of the
  log method, the statistics methods, the rest of the module.
\<close>

lemma second_run:
  fixes p r :: string
  defines \<open>p \<equiv> ''import logging\<newline>\<newline>class MeshCLI:\<newline>    def _cmd_log(self, command):\<newline>        return "Unknown log command"''\<close>
    and \<open>r \<equiv> ''logger = logging.getLogger("mesh_cli")\<newline>''\<close>
  shows "\<not> contains ''import subprocess'' (p @ stats_methods @ CHR 0x0A # CHR 0x0A # r)"
    and "contains ''import subprocess'' (patch_content (p @ stats_methods @ CHR 0x0A # CHR 0x0A # r))"
proof -
  obtain ls where sm: "stats_methods = concat ([CHR 0x0A] # ls)" and ok: "list_all line_ok ls"
      and nob: "list_all no_old_block ls"
      and nsub: "list_all (\<lambda>l. \<not> contains ''import subprocess'' l) ls"
      and nlog: "list_all (\<lambda>l. \<not> contains ''logger = '' l) ls"
      and imp: "list_ex (contains ''import time\<newline>'') ls"
      and dfn: "list_ex (contains ''def _cmd_stats_packets'') ls"
    using stats_methods_scan by blast
  let ?i = "p @ stats_methods @ [CHR 0x0A]"
  let ?c = "p @ stats_methods @ CHR 0x0A # CHR 0x0A # r"
  let ?new = "''import time\<newline>import subprocess  # pymc_console: for systemctl commands\<newline>''"
  let ?c2 = "replace ''import time\<newline>'' ?new ?i @ CHR 0x0A # r"
  have c: "?c = ?i @ CHR 0x0A # r" by simp
  show absent: "\<not> contains ''import subprocess'' ?c"
    unfolding sm
    by (rule absent_lines [OF _ _ _ ok nsub]) (simp_all add: p_def r_def)
  have "\<not> contains ''logger = '' (p @ concat ([CHR 0x0A] # ls) @ ''\<newline>\<newline>logger ='')"
    by (rule absent_lines [OF _ _ _ ok nlog]) (simp_all add: p_def)
  then have "\<not> contains ''\<newline>logger = '' (?i @ ''\<newline>logger ='')"
    unfolding sm by (auto dest: contains_Cons)
  then have "find_index ''\<newline>logger = '' (?i @ CHR 0x0A # r) = Some (length ?i)"
    by (intro find_index_at) (simp_all add: r_def)
  moreover have "\<not> contains ''import subprocess'' (?i @ CHR 0x0A # r)"
    using absent by simp
  ultimately have fired:
    "content (patch_imports \<lparr>content = ?i @ CHR 0x0A # r, patches_applied = []\<rparr>) = ?c2"
    by (intro patch_imports_fires) simp_all
  have "contains ''import time\<newline>'' stats_methods"
    unfolding sm using imp by (intro contains_concatI) simp
  then have it: "contains ''import time\<newline>'' ?i"
    by (intro contains_appI2 contains_appI1)
  have st: "contains ''def _cmd_stats_packets'' stats_methods"
    unfolding sm using dfn by (intro contains_concatI) simp
  then have "contains ''def _cmd_stats_packets'' ?i"
    by (intro contains_appI2 contains_appI1)
  then have "contains ''def _cmd_stats_packets'' (replace ''import time\<newline>'' ?new ?i)"
    by (rule contains_replace_pre [where ln = "''import time''"
          and e = "''import subprocess  # pymc_console: for systemctl commands\<newline>''", rotated 5])
       simp_all
  then have present: "contains ''def _cmd_stats_packets'' ?c2"
    by (rule contains_appI1)
  have "no_old_block ?i"
    unfolding sm
    by (rule no_old_block_lines [OF _ ok nob]) (simp_all add: no_old_block_def p_def)
  moreover have "no_old_block r"
    by (simp add: no_old_block_def r_def)
  ultimately have "no_old_block ?c2"
    by (rule no_old_block_after_import)
  with fired have "content (apply_patches (?i @ CHR 0x0A # r)) =
      content (patch_stats_methods \<lparr>content = ?c2, patches_applied = []\<rparr>)"
    using apply_patches_content [of "?i @ CHR 0x0A # r"] by simp
  also have "\<dots> = ?c2"
    using present by (simp add: patch_stats_methods_present)
  finally have run: "patch_content ?c = ?c2"
    by (simp add: patch_content_def)
  have "contains ?new (replace ''import time\<newline>'' ?new ?i)"
    using it by (intro contains_replace_new) simp_all
  moreover have "contains ''import subprocess'' ?new"
    by simp
  ultimately have "contains ''import subprocess'' (replace ''import time\<newline>'' ?new ?i)"
    using contains_trans by blast
  then have "contains ''import subprocess'' ?c2"
    by (rule contains_appI1)
  with run show "contains ''import subprocess'' (patch_content ?c)"
    by simp
qed

text \<open>
  C8. On the module \<open>late_logger_file\<close> the transformation is not idempotent. The first
  run leaves the imports alone, there being no \<^verbatim>\<open>import time\<close> line before the logger,
  and adds the statistics methods, which contain such a line, in front of the logger. The
  second run finds that line in the import section and adds the import of
  \<^verbatim>\<open>subprocess\<close> after it: the text changes again and the run does not report that no
  changes are needed.
\<close>

theorem patch_twice_differs:
  "patch_content (patch_content late_logger_file) \<noteq> patch_content late_logger_file \<and>
   patch_file (Some (patch_content late_logger_file)) \<noteq> No_Changes_Needed \<and>
   \<not> contains ''import subprocess'' (patch_content late_logger_file) \<and>
   contains ''import subprocess'' (patch_content (patch_content late_logger_file))"
proof -
  have a: "\<not> contains ''import subprocess'' (patch_content late_logger_file)"
    and b: "contains ''import subprocess'' (patch_content (patch_content late_logger_file))"
    using second_run by (simp_all add: first_run)
  then have "patch_content (patch_content late_logger_file) \<noteq> patch_content late_logger_file"
    by auto
  with a b show ?thesis
    by (auto simp: patch_file_def patch_content_def Let_def)
qed

end
